theory Spec2Isabelle
  imports Complex_Main "HOL-Library.Sublist" "HOL-Library.Char_ord" "HOL-Library.List_Lexorder"
begin

section \<open>Certificate carousel (CertificatesSlider)\<close>

text \<open>
  The component keeps five pieces of React state. Every event handler reads the state
  of the last render and queues its updates, and React renders again before the next
  discrete event is delivered, so a handler is a function from state to state.

  JavaScript numbers: the index arithmetic stays inside the integers, except that
  \<open>x % 0\<close> is \<open>NaN\<close>; the type \<open>number\<close> keeps that case apart. Pointer positions
  (\<open>clientX\<close>, CSS pixels) are modelled as integers.
\<close>

datatype number = Num int | NaN

record Certificate =
  id' :: int
  title :: string
  issuer :: string
  description :: string
  date :: string
  image :: "string option"
  link :: "string option"

record slider =
  activeIndex :: number
  touchStart :: "int option"
  touchEnd :: "int option"
  isDragging :: bool
  dragStartX :: "int option"

text \<open>The five \<open>useState\<close> initial values.\<close>

definition initial :: slider where
  "initial = \<lparr>activeIndex = Num 0, touchStart = None, touchEnd = None,
     isDragging = False, dragStartX = None\<rparr>"

definition minSwipeDistance :: int where
  "minSwipeDistance = 50"

text \<open>
  The remainder operator \<open>%\<close> on integers: the sign of the result is the sign of the
  dividend, and a zero divisor gives \<open>NaN\<close>.
\<close>

definition js_rem :: "int \<Rightarrow> int \<Rightarrow> number" where
  "js_rem a b = (if b = 0 then NaN else Num (sgn a * (\<bar>a\<bar> mod \<bar>b\<bar>)))"

text \<open>\<open>!x\<close> for a state of type \<open>number | null\<close>: \<open>null\<close> and \<open>0\<close> are falsy.\<close>

fun falsy :: "int option \<Rightarrow> bool" where
  "falsy None = True"
| "falsy (Some x) = (x = 0)"

definition nextSlide :: "Certificate list \<Rightarrow> slider \<Rightarrow> slider" where
  "nextSlide certificates s =
     s\<lparr>activeIndex :=
         (case activeIndex s of
            Num prev \<Rightarrow> js_rem (prev + 1) (int (length certificates))
          | NaN \<Rightarrow> NaN)\<rparr>"

definition prevSlide :: "Certificate list \<Rightarrow> slider \<Rightarrow> slider" where
  "prevSlide certificates s =
     s\<lparr>activeIndex :=
         (case activeIndex s of
            Num prev \<Rightarrow>
              js_rem (prev - 1 + int (length certificates)) (int (length certificates))
          | NaN \<Rightarrow> NaN)\<rparr>"

definition onTouchStart :: "int \<Rightarrow> slider \<Rightarrow> slider" where
  "onTouchStart clientX s = s\<lparr>touchEnd := None, touchStart := Some clientX\<rparr>"

definition onTouchMove :: "int \<Rightarrow> slider \<Rightarrow> slider" where
  "onTouchMove clientX s = s\<lparr>touchEnd := Some clientX\<rparr>"

definition onTouchEnd :: "Certificate list \<Rightarrow> slider \<Rightarrow> slider" where
  "onTouchEnd certificates s =
     (if falsy (touchStart s) \<or> falsy (touchEnd s) then s
      else case (touchStart s, touchEnd s) of
        (Some ts, Some te) \<Rightarrow>
          (let distance = ts - te;
               isLeftSwipe = distance > minSwipeDistance;
               isRightSwipe = distance < - minSwipeDistance
           in if isLeftSwipe then nextSlide certificates s
              else if isRightSwipe then prevSlide certificates s
              else s)
      | _ \<Rightarrow> s)"

definition onMouseDown :: "int \<Rightarrow> slider \<Rightarrow> slider" where
  "onMouseDown clientX s = s\<lparr>isDragging := True, dragStartX := Some clientX\<rparr>"

definition onMouseMove :: "int \<Rightarrow> slider \<Rightarrow> slider" where
  "onMouseMove clientX s = s"

definition onMouseUp :: "Certificate list \<Rightarrow> int \<Rightarrow> slider \<Rightarrow> slider" where
  "onMouseUp certificates clientX s =
     (if \<not> isDragging s \<or> dragStartX s = None then s
      else case dragStartX s of
        Some start \<Rightarrow>
          (let dragEndX = clientX;
               distance = start - dragEndX;
               s' = (if distance > minSwipeDistance then nextSlide certificates s
                     else if distance < - minSwipeDistance then prevSlide certificates s
                     else s)
           in s'\<lparr>isDragging := False, dragStartX := None\<rparr>)
      | None \<Rightarrow> s)"

definition onMouseLeave :: "slider \<Rightarrow> slider" where
  "onMouseLeave s = s\<lparr>isDragging := False, dragStartX := None\<rparr>"

text \<open>The click handler of the card rendered at \<open>index\<close>.\<close>

definition onClick :: "nat \<Rightarrow> slider \<Rightarrow> slider" where
  "onClick index s = (if \<not> isDragging s then s\<lparr>activeIndex := Num (int index)\<rparr> else s)"

text \<open>
  The events the rendered tree listens to: the two navigation buttons, the seven
  handlers of the slider container, and the click handler of each card.
\<close>

datatype event =
    PrevButton
  | NextButton
  | TouchStart int
  | TouchMove int
  | TouchEnd
  | MouseDown int
  | MouseMove int
  | MouseUp int
  | MouseLeave
  | CardClick nat

fun handle :: "Certificate list \<Rightarrow> event \<Rightarrow> slider \<Rightarrow> slider" where
  "handle cs PrevButton s = prevSlide cs s"
| "handle cs NextButton s = nextSlide cs s"
| "handle cs (TouchStart x) s = onTouchStart x s"
| "handle cs (TouchMove x) s = onTouchMove x s"
| "handle cs TouchEnd s = onTouchEnd cs s"
| "handle cs (MouseDown x) s = onMouseDown x s"
| "handle cs (MouseMove x) s = onMouseMove x s"
| "handle cs (MouseUp x) s = onMouseUp cs x s"
| "handle cs MouseLeave s = onMouseLeave s"
| "handle cs (CardClick i) s = onClick i s"

fun run :: "Certificate list \<Rightarrow> event list \<Rightarrow> slider \<Rightarrow> slider" where
  "run cs [] s = s"
| "run cs (e # es) s = run cs es (handle cs e s)"

text \<open>A card is rendered for each index of \<open>certificates.map\<close>, and for no other.\<close>

fun rendered :: "Certificate list \<Rightarrow> event \<Rightarrow> bool" where
  "rendered cs (CardClick i) = (i < length cs)"
| "rendered cs _ = True"

text \<open>
  \<open>getCardStyle\<close>: the local \<open>diff\<close> after the two wrap-around adjustments.
  \<open>total / 2\<close> is a division of numbers, not of integers, so the comparison is made
  in the rationals.
\<close>

definition cardDiff :: "Certificate list \<Rightarrow> number \<Rightarrow> nat \<Rightarrow> number" where
  "cardDiff certificates active index =
     (case active of
        NaN \<Rightarrow> NaN
      | Num a \<Rightarrow>
          (let diff = int index - a;
               total = int (length certificates);
               diff = (if (of_int diff :: rat) > of_int total / 2 then diff - total else diff);
               diff = (if (of_int diff :: rat) < of_int (- total) / 2 then diff + total else diff)
           in Num diff))"

text \<open>The integer-valued parts of the style object that \<open>getCardStyle\<close> returns.\<close>

record cardStyle =
  xOffset :: int
  zOffset :: int
  rotateY :: int
  zIndex :: int
  isVisible :: bool

definition getCardStyle :: "Certificate list \<Rightarrow> slider \<Rightarrow> nat \<Rightarrow> cardStyle option" where
  "getCardStyle certificates s index =
     (case cardDiff certificates (activeIndex s) index of
        NaN \<Rightarrow> None
      | Num diff \<Rightarrow>
          Some \<lparr>xOffset = diff * 120,
                zOffset = - \<bar>diff\<bar> * 100,
                rotateY = (if diff > 0 then - 45 else if diff < 0 then 45 else 0),
                zIndex = 100 - \<bar>diff\<bar>,
                isVisible = (\<bar>diff\<bar> \<le> 2)\<rparr>)"

text \<open>
  The invariant of the carousel state: \<open>activeIndex\<close> is a valid index into the
  certificate list.
\<close>

definition validIndex :: "Certificate list \<Rightarrow> slider \<Rightarrow> bool" where
  "validIndex cs s =
     (case activeIndex s of NaN \<Rightarrow> False | Num k \<Rightarrow> 0 \<le> k \<and> k < int (length cs))"

text \<open>A list of five certificates, for the scenarios.\<close>

definition sampleCertificate :: "int \<Rightarrow> Certificate" where
  "sampleCertificate n = \<lparr>id' = n, title = ''AWS'', issuer = ''Amazon'', description = [],
     date = ''2024'', image = None, link = None\<rparr>"

definition fiveCertificates :: "Certificate list" where
  "fiveCertificates = map sampleCertificate [1, 2, 3, 4, 5]"

section \<open>Project filter (ProjectFilter)\<close>

text \<open>
  Both versions of the component compute \<open>allTags\<close> and \<open>filteredProjects\<close> with the
  same code. A string is the list of its code units, and the model has the code units
  below 256 (Basic Latin and the Latin-1 Supplement). On these \<open>toLowerCase\<close> maps one
  code unit to one code unit: \<open>A\<close> to \<open>Z\<close> (65 to 90) and the capital letters of the
  supplement (192 to 222, without the multiplication sign 215) move up by 32, and
  every other code unit stays. Strings with code units from 256 on are outside the
  model.
\<close>

record ProjectData =
  title :: string
  description :: string
  tags :: "string list"
  date :: string
  heroImage :: "string option"

record Project =
  slug :: string
  data :: ProjectData

definition toLowerChar :: "char \<Rightarrow> char" where
  "toLowerChar c =
     (let n = (of_char c :: nat)
      in if (65 \<le> n \<and> n \<le> 90) \<or> (192 \<le> n \<and> n \<le> 222 \<and> n \<noteq> 215)
         then char_of (n + 32) else c)"

definition toLowerCase :: "string \<Rightarrow> string" where
  "toLowerCase s = map toLowerChar s"

text \<open>
  \<open>String.prototype.includes\<close>: the search string occurs at some position of the
  string; \<open>startsWith\<close> compares it with what is at one position.
\<close>

fun startsWith :: "string \<Rightarrow> string \<Rightarrow> bool" where
  "startsWith s [] = True"
| "startsWith [] (q # qs) = False"
| "startsWith (c # cs) (q # qs) = (c = q \<and> startsWith cs qs)"

fun str_includes :: "string \<Rightarrow> string \<Rightarrow> bool" where
  "str_includes [] q = (q = [])"
| "str_includes (c # cs) q = (startsWith (c # cs) q \<or> str_includes cs q)"

text \<open>
  \<open>Array.from(tags).sort()\<close>: the distinct tags of all projects, in the order of
  their characters.
\<close>

definition allTags :: "Project list \<Rightarrow> string list" where
  "allTags projects = sort (remdups (concat (map (\<lambda>p. tags (data p)) projects)))"

text \<open>The click handlers of the button for all projects and of the button of a tag.\<close>

definition clickAll :: "string option \<Rightarrow> string option" where
  "clickAll selectedTag = None"

definition clickTag :: "string \<Rightarrow> string option \<Rightarrow> string option" where
  "clickTag tag selectedTag = (if Some tag = selectedTag then None else Some tag)"

text \<open>
  \<open>selectedTag ? \<dots> : true\<close> tests the truthiness of a \<open>string | null\<close>:
  \<open>null\<close> and the empty string are falsy.
\<close>

definition matchesTag :: "string option \<Rightarrow> Project \<Rightarrow> bool" where
  "matchesTag selectedTag project =
     (case selectedTag of
        None \<Rightarrow> True
      | Some t \<Rightarrow> if t \<noteq> [] then t \<in> set (tags (data project)) else True)"

definition matchesSearch :: "string \<Rightarrow> Project \<Rightarrow> bool" where
  "matchesSearch search project =
     (str_includes (toLowerCase (title (data project))) (toLowerCase search)
      \<or> str_includes (toLowerCase (description (data project))) (toLowerCase search))"

definition filteredProjects :: "Project list \<Rightarrow> string \<Rightarrow> string option \<Rightarrow> Project list" where
  "filteredProjects projects search selectedTag =
     filter (\<lambda>project. matchesSearch search project \<and> matchesTag selectedTag project) projects"

text \<open>
  The contract of the filter, in the words of the specification: \<open>s\<close> contains \<open>q\<close> as
  a case-insensitive substring when some contiguous part of \<open>s\<close> equals \<open>q\<close> up to the
  case of its letters; a selected tag has to be among the tags of the project.
\<close>

definition containsIgnoringCase :: "string \<Rightarrow> string \<Rightarrow> bool" where
  "containsIgnoringCase s q =
     (\<exists>before part after. s = before @ part @ after \<and> toLowerCase part = toLowerCase q)"

definition spec_visible :: "string \<Rightarrow> string option \<Rightarrow> Project \<Rightarrow> bool" where
  "spec_visible q t project =
     ((containsIgnoringCase (title (data project)) q
       \<or> containsIgnoringCase (description (data project)) q)
      \<and> (case t of None \<Rightarrow> True | Some tag \<Rightarrow> tag \<in> set (tags (data project))))"

text \<open>A project with a title and tags, for the scenarios.\<close>

definition project :: "string \<Rightarrow> string list \<Rightarrow> Project" where
  "project name ts =
     \<lparr>slug = name,
      data = \<lparr>title = name, description = [], tags = ts, date = ''2024-01-01'',
              heroImage = None\<rparr>\<rparr>"

section \<open>Image pipeline (scripts/generate-og.mjs)\<close>

text \<open>
  The script talks to the host through four calls: \<open>fs.mkdir\<close>, \<open>fs.access\<close>,
  \<open>fs.readdir\<close> and the \<open>toFile\<close> of sharp, and it writes to the console. The state
  it runs against is the directory tree, the contents of the regular files and the
  sequence of calls made so far. A path is the list of its components below the root
  of the file system, so \<open>path.join dir name\<close> is \<open>dir @ [name]\<close>.

  A directory is the list of the names of its entries, in the order in which
  \<open>readdir\<close> reports them. The bytes of a source image are opaque; an image written by
  sharp is described by the image it was made from and the options it was made with.
  Every call rejects where the state of the file system makes it reject: \<open>mkdir\<close>
  when a regular file is in the way, \<open>access\<close> when nothing is at the path,
  \<open>readdir\<close> when the path is not a directory, \<open>toFile\<close> when the input is not an
  image or the output cannot be written. Rejections that do not depend on that state
  (permissions, a full disk) are outside the model.
\<close>

type_synonym path = "string list"

record encoding =
  width :: nat
  height :: nat
  fit :: string
  position :: string
  format :: string
  quality :: nat

datatype content = Original string | Encoded content encoding

datatype error =
    NotADirectory path
  | FileExists path
  | InputFileMissing path
  | UnsupportedImageFormat path
  | OutputNotWritable path

datatype message =
    SourceDirMissing path
  | NothingToDo
  | Generated nat
  | Failed error

datatype call =
    Mkdir path
  | Access path
  | Readdir path
  | ToFile path path
  | ConsoleLog message
  | ConsoleError message

record world =
  dirs :: "path \<rightharpoonup> string list"
  files :: "path \<rightharpoonup> content"
  trace :: "call list"

definition called :: "call \<Rightarrow> world \<Rightarrow> world" where
  "called c w = w\<lparr>trace := trace w @ [c]\<rparr>"

definition OG_SOURCE_DIR :: "path \<Rightarrow> path" where
  "OG_SOURCE_DIR ROOT = ROOT @ [''src'', ''og'']"

definition OG_OUTPUT_DIR :: "path \<Rightarrow> path" where
  "OG_OUTPUT_DIR ROOT = ROOT @ [''public'', ''images'', ''og'']"

definition WIDTH :: nat where
  "WIDTH = 1200"

definition HEIGHT :: nat where
  "HEIGHT = 630"

text \<open>Entering a name into a directory that exists; a name already there stays once.\<close>

definition addEntry :: "path \<Rightarrow> string \<Rightarrow> (path \<rightharpoonup> string list) \<Rightarrow> (path \<rightharpoonup> string list)" where
  "addEntry dir name ds =
     (case ds dir of
        None \<Rightarrow> ds
      | Some names \<Rightarrow> if name \<in> set names then ds else ds(dir \<mapsto> names @ [name]))"

text \<open>Making one directory whose parent is there, unless it is there already.\<close>

definition mkdir1 :: "path \<Rightarrow> (path \<rightharpoonup> string list) \<Rightarrow> (path \<rightharpoonup> string list)" where
  "mkdir1 p ds =
     (if ds p \<noteq> None then ds
      else if p = [] then ds(p \<mapsto> [])
      else addEntry (butlast p) (last p) (ds(p \<mapsto> [])))"

text \<open>
  \<open>fs.mkdir(dir, { recursive: true })\<close> makes every missing directory on the way to
  \<open>dir\<close>, from the root down, and accepts the directories that are there. It rejects,
  and makes nothing, when a regular file is at \<open>dir\<close> (\<open>EEXIST\<close>) or at one of its
  ancestors (\<open>ENOTDIR\<close>).
\<close>

fun mkdirs :: "path \<Rightarrow> path \<Rightarrow> (path \<rightharpoonup> content) \<Rightarrow> (path \<rightharpoonup> string list)
    \<Rightarrow> error + (path \<rightharpoonup> string list)" where
  "mkdirs made [] fs ds =
     (if fs made \<noteq> None then Inl (FileExists made) else Inr (mkdir1 made ds))"
| "mkdirs made (name # rest) fs ds =
     (if fs made \<noteq> None then Inl (NotADirectory made)
      else mkdirs (made @ [name]) rest fs (mkdir1 made ds))"

definition ensureDir :: "path \<Rightarrow> world \<Rightarrow> (error + unit) \<times> world" where
  "ensureDir dir w =
     (case mkdirs [] dir (files w) (dirs w) of
        Inl err \<Rightarrow> (Inl err, called (Mkdir dir) w)
      | Inr ds \<Rightarrow> (Inr (), (called (Mkdir dir) w)\<lparr>dirs := ds\<rparr>))"

text \<open>\<open>fs.access(p)\<close> resolves when something is at \<open>p\<close>, and rejects otherwise.\<close>

definition access :: "path \<Rightarrow> world \<Rightarrow> bool \<times> world" where
  "access p w = (dirs w p \<noteq> None \<or> files w p \<noteq> None, called (Access p) w)"

text \<open>
  \<open>listFiles\<close>: the entries of \<open>dir\<close> that are regular files, each joined to \<open>dir\<close>.
  \<open>readdir\<close> rejects when \<open>dir\<close> is not a directory.
\<close>

definition listFiles :: "path \<Rightarrow> world \<Rightarrow> (error + path list) \<times> world" where
  "listFiles dir w =
     (case dirs w dir of
        None \<Rightarrow> (Inl (NotADirectory dir), called (Readdir dir) w)
      | Some entries \<Rightarrow>
          (Inr (map (\<lambda>name. dir @ [name])
                  (filter (\<lambda>name. files w (dir @ [name]) \<noteq> None) entries)),
           called (Readdir dir) w))"

text \<open>
  \<open>path.parse(p).name\<close>: the last component of \<open>p\<close> without its extension. The
  extension starts at the last dot, unless that dot is the first character of the
  component or the component is \<open>..\<close>; then there is no extension.
\<close>

definition lastDot :: "string \<Rightarrow> nat option" where
  "lastDot base =
     (if CHR ''.'' \<in> set base
      then Some (length base - 1 - length (takeWhile (\<lambda>c. c \<noteq> CHR ''.'') (rev base)))
      else None)"

definition parse_name :: "path \<Rightarrow> string" where
  "parse_name p =
     (let base = (if p = [] then [] else last p)
      in case lastDot base of
           None \<Rightarrow> base
         | Some startDot \<Rightarrow>
             if startDot = 0 \<or> base = ''..'' then base else take startDot base)"

definition outNameFromInput :: "path \<Rightarrow> string" where
  "outNameFromInput inputFile = (let base = parse_name inputFile in base @ ''.webp'')"

text \<open>
  \<open>sharp(input).resize(\<dots>).webp(\<dots>).toFile(out)\<close>. Which images sharp can decode
  is a parameter. The call rejects when the input is not a file, when its content is
  not an image sharp can decode, and when the output cannot be written because its
  path is a directory or its parent is not one.
\<close>

definition toFile :: "(content \<Rightarrow> bool) \<Rightarrow> path \<Rightarrow> encoding \<Rightarrow> path \<Rightarrow> world
    \<Rightarrow> (error + unit) \<times> world" where
  "toFile decodable input enc out w =
     (let w' = called (ToFile input out) w
      in case files w input of
           None \<Rightarrow> (Inl (InputFileMissing input), w')
         | Some c \<Rightarrow>
             if \<not> decodable c then (Inl (UnsupportedImageFormat input), w')
             else if dirs w out \<noteq> None \<or> dirs w (butlast out) = None
               then (Inl (OutputNotWritable out), w')
             else (Inr (),
                   w'\<lparr>files := (files w)(out \<mapsto> Encoded c enc),
                      dirs := addEntry (butlast out) (last out) (dirs w)\<rparr>))"

definition buildOne :: "(content \<Rightarrow> bool) \<Rightarrow> path \<Rightarrow> path \<Rightarrow> world \<Rightarrow> (error + path) \<times> world" where
  "buildOne decodable ROOT inputFile w =
     (let outFile = OG_OUTPUT_DIR ROOT @ [outNameFromInput inputFile]
      in case toFile decodable inputFile
                \<lparr>width = WIDTH, height = HEIGHT, fit = ''cover'', position = ''centre'',
                 format = ''webp'', quality = 82\<rparr>
                outFile w of
           (Inl err, w') \<Rightarrow> (Inl err, w')
         | (Inr u, w') \<Rightarrow> (Inr outFile, w'))"

text \<open>
  The path \<open>buildOne\<close> writes the image of an input to, and whether \<open>buildOne\<close>
  returns for an input or throws.
\<close>

definition outFile :: "path \<Rightarrow> path \<Rightarrow> path" where
  "outFile ROOT inputFile = OG_OUTPUT_DIR ROOT @ [outNameFromInput inputFile]"

definition encodes :: "(content \<Rightarrow> bool) \<Rightarrow> path \<Rightarrow> world \<Rightarrow> path \<Rightarrow> bool" where
  "encodes decodable ROOT w inputFile =
     (case buildOne decodable ROOT inputFile w of
        (Inl err, w') \<Rightarrow> False
      | (Inr out, w') \<Rightarrow> True)"

text \<open>The \<open>for\<close> loop of \<open>main\<close>: an exception of \<open>buildOne\<close> leaves the loop.\<close>

fun buildAll :: "(content \<Rightarrow> bool) \<Rightarrow> path \<Rightarrow> path list \<Rightarrow> path list \<Rightarrow> world
    \<Rightarrow> (error + path list) \<times> world" where
  "buildAll decodable ROOT [] results w = (Inr results, w)"
| "buildAll decodable ROOT (input # inputs) results w =
     (case buildOne decodable ROOT input w of
        (Inl err, w') \<Rightarrow> (Inl err, w')
      | (Inr out, w') \<Rightarrow> buildAll decodable ROOT inputs (results @ [out]) w')"

definition main :: "(content \<Rightarrow> bool) \<Rightarrow> path \<Rightarrow> world \<Rightarrow> (error + unit) \<times> world" where
  "main decodable ROOT w =
     (case ensureDir (OG_OUTPUT_DIR ROOT) w of
        (Inl err, w1) \<Rightarrow> (Inl err, w1)
      | (Inr u, w1) \<Rightarrow>
          (case access (OG_SOURCE_DIR ROOT) w1 of
             (False, w2) \<Rightarrow>
               (Inr (), called (ConsoleLog (SourceDirMissing (OG_SOURCE_DIR ROOT))) w2)
           | (True, w2) \<Rightarrow>
               (case listFiles (OG_SOURCE_DIR ROOT) w2 of
                  (Inl err, w3) \<Rightarrow> (Inl err, w3)
                | (Inr inputs, w3) \<Rightarrow>
                    if length inputs = 0 then (Inr (), called (ConsoleLog NothingToDo) w3)
                    else
                      (case buildAll decodable ROOT inputs [] w3 of
                         (Inl err, w4) \<Rightarrow> (Inl err, w4)
                       | (Inr results, w4) \<Rightarrow>
                           (Inr (),
                            called (ConsoleLog (Generated (length results))) w4)))))"

text \<open>
  The script: \<open>main().catch(\<dots>)\<close>, on a process that has made no call yet. The
  result is the exit status of the process and the state it leaves.
\<close>

definition script :: "(content \<Rightarrow> bool) \<Rightarrow> path \<Rightarrow> world \<Rightarrow> nat \<times> world" where
  "script decodable ROOT w =
     (case main decodable ROOT (w\<lparr>trace := []\<rparr>) of
        (Inr u, w') \<Rightarrow> (0, w')
      | (Inl err, w') \<Rightarrow> (1, called (ConsoleError (Failed err)) w'))"

text \<open>The \<open>toFile\<close> calls of a trace, as pairs of input and output, in order.\<close>

fun written :: "call list \<Rightarrow> (path \<times> path) list" where
  "written [] = []"
| "written (ToFile input out # cs) = (input, out) # written cs"
| "written (c # cs) = written cs"

text \<open>The options of every image the script writes.\<close>

definition ogEncoding :: encoding where
  "ogEncoding = \<lparr>width = 1200, height = 630, fit = ''cover'', position = ''centre'',
     format = ''webp'', quality = 82\<rparr>"

text \<open>A project checked out at \<open>/repo\<close>, with the source images given by name.\<close>

definition checkout :: "string list \<Rightarrow> world" where
  "checkout names =
     \<lparr>dirs = [[] \<mapsto> [''repo''], [''repo''] \<mapsto> [''src''], [''repo'', ''src''] \<mapsto> [''og''],
              [''repo'', ''src'', ''og''] \<mapsto> names],
      files = map_of (map (\<lambda>n. ([''repo'', ''src'', ''og'', n], Original n)) names),
      trace = []\<rparr>"

text \<open>
  Two more states of the disk: a regular file named \<open>public\<close> where the directory
  should be and no source directory, and a regular file at \<open>src/og\<close>.
\<close>

definition publicIsAFile :: world where
  "publicIsAFile =
     \<lparr>dirs = [[] \<mapsto> [''repo''], [''repo''] \<mapsto> [''public'']],
      files = [[''repo'', ''public''] \<mapsto> Original ''notes''],
      trace = []\<rparr>"

definition sourceIsAFile :: world where
  "sourceIsAFile =
     \<lparr>dirs = [[] \<mapsto> [''repo''], [''repo''] \<mapsto> [''src''], [''repo'', ''src''] \<mapsto> [''og'']],
      files = [[''repo'', ''src'', ''og''] \<mapsto> Original ''og''],
      trace = []\<rparr>"

section \<open>Properties of the carousel\<close>

lemma js_rem_nonneg: "0 \<le> a \<Longrightarrow> 0 < b \<Longrightarrow> js_rem a b = Num (a mod b)"
  by (cases "a = 0") (simp_all add: js_rem_def)

lemma length_five: "length fiveCertificates = 5"
  by (simp add: fiveCertificates_def)

lemma half_gt: "((of_int d :: rat) > of_int n / 2) = (2 * d > n)"
proof -
  have "((of_int d :: rat) > of_int n / 2) = ((of_int n :: rat) < of_int (2 * d))"
    by (simp add: field_simps)
  also have "\<dots> = (n < 2 * d)" by (simp only: of_int_less_iff)
  finally show ?thesis .
qed

lemma half_lt: "((of_int d :: rat) < of_int (- n) / 2) = (2 * d < - n)"
proof -
  have "((of_int d :: rat) < of_int (- n) / 2) = ((of_int (2 * d) :: rat) < of_int (- n))"
    by (simp add: field_simps)
  also have "\<dots> = (2 * d < - n)" by (simp only: of_int_less_iff)
  finally show ?thesis .
qed

lemma cardDiff_cases:
  "cardDiff cs (Num a) i =
     Num (let d = int i - a; n = int (length cs);
              d = (if 2 * d > n then d - n else d)
          in if 2 * d < - n then d + n else d)"
  unfolding cardDiff_def Let_def number.case half_gt half_lt by (rule refl)

lemma activeIndex_nextSlide:
  assumes "activeIndex s = Num i" "0 \<le> i" "i < int (length cs)"
  shows "activeIndex (nextSlide cs s) = Num ((i + 1) mod int (length cs))"
proof -
  have "js_rem (i + 1) (int (length cs)) = Num ((i + 1) mod int (length cs))"
    using assms by (intro js_rem_nonneg) linarith+
  with assms(1) show ?thesis by (simp add: nextSlide_def)
qed

lemma activeIndex_prevSlide:
  assumes "activeIndex s = Num i" "0 \<le> i" "i < int (length cs)"
  shows "activeIndex (prevSlide cs s) = Num ((i - 1 + int (length cs)) mod int (length cs))"
proof -
  have "js_rem (i - 1 + int (length cs)) (int (length cs))
      = Num ((i - 1 + int (length cs)) mod int (length cs))"
    using assms by (intro js_rem_nonneg) linarith+
  with assms(1) show ?thesis by (simp add: prevSlide_def)
qed

lemma validIndex_nextSlide: "validIndex cs s \<Longrightarrow> validIndex cs (nextSlide cs s)"
proof -
  assume "validIndex cs s"
  then obtain i where i: "activeIndex s = Num i" "0 \<le> i" "i < int (length cs)"
    by (auto simp: validIndex_def split: number.splits)
  then have "0 < int (length cs)" by linarith
  then have "0 \<le> (i + 1) mod int (length cs)" "(i + 1) mod int (length cs) < int (length cs)"
    by simp_all
  with activeIndex_nextSlide [OF i] show ?thesis by (simp add: validIndex_def)
qed

lemma validIndex_prevSlide: "validIndex cs s \<Longrightarrow> validIndex cs (prevSlide cs s)"
proof -
  assume "validIndex cs s"
  then obtain i where i: "activeIndex s = Num i" "0 \<le> i" "i < int (length cs)"
    by (auto simp: validIndex_def split: number.splits)
  then have "0 < int (length cs)" by linarith
  then have "0 \<le> (i - 1 + int (length cs)) mod int (length cs)"
    "(i - 1 + int (length cs)) mod int (length cs) < int (length cs)"
    by simp_all
  with activeIndex_prevSlide [OF i] show ?thesis by (simp add: validIndex_def)
qed

lemma validIndex_cong: "activeIndex s' = activeIndex s \<Longrightarrow> validIndex cs s' = validIndex cs s"
  by (simp add: validIndex_def)

lemma validIndex_onTouchEnd: "validIndex cs s \<Longrightarrow> validIndex cs (onTouchEnd cs s)"
  by (auto simp: onTouchEnd_def Let_def validIndex_nextSlide validIndex_prevSlide
      split: option.splits)

lemma validIndex_onMouseUp: "validIndex cs s \<Longrightarrow> validIndex cs (onMouseUp cs x s)"
proof -
  assume v: "validIndex cs s"
  have *: "validIndex cs (t\<lparr>isDragging := False, dragStartX := None\<rparr>) = validIndex cs t" for t
    by (simp add: validIndex_def)
  from v show ?thesis
    by (auto simp: onMouseUp_def Let_def * validIndex_nextSlide validIndex_prevSlide
        split: option.splits)
qed

lemma validIndex_handle:
  "validIndex cs s \<Longrightarrow> rendered cs e \<Longrightarrow> validIndex cs (handle cs e s)"
proof (cases e)
  case (CardClick i)
  assume "validIndex cs s" "rendered cs e"
  with CardClick show ?thesis by (simp add: onClick_def validIndex_def)
qed (simp_all add: validIndex_nextSlide validIndex_prevSlide validIndex_onTouchEnd
      validIndex_onMouseUp,
     simp_all add: validIndex_def onTouchStart_def onTouchMove_def onMouseDown_def
      onMouseMove_def onMouseLeave_def)

lemma validIndex_run:
  "validIndex cs s \<Longrightarrow> \<forall>e \<in> set es. rendered cs e \<Longrightarrow> validIndex cs (run cs es s)"
  by (induction es arbitrary: s) (simp_all add: validIndex_handle)

lemma validIndex_initial: "cs \<noteq> [] \<Longrightarrow> validIndex cs initial"
  by (simp add: validIndex_def initial_def)

text \<open>
  Claim C2. For a list of \<open>N \<ge> 1\<close> certificates and an active index \<open>i\<close> with
  \<open>0 \<le> i < N\<close>, \<open>nextSlide\<close> sets the active index to \<open>(i + 1) mod N\<close> and
  \<open>prevSlide\<close> sets it to \<open>(i - 1 + N) mod N\<close>. With five certificates and the active
  index 4, \<open>nextSlide\<close> gives 0.
\<close>

theorem nextSlide_prevSlide_index:
  assumes "certificates \<noteq> []" and "activeIndex s = Num i"
    and "0 \<le> i" and "i < int (length certificates)"
  shows "activeIndex (nextSlide certificates s) = Num ((i + 1) mod int (length certificates))
       \<and> activeIndex (prevSlide certificates s) =
           Num ((i - 1 + int (length certificates)) mod int (length certificates))"
  using assms(2-4) activeIndex_nextSlide [of s i certificates]
    activeIndex_prevSlide [of s i certificates] by blast

theorem nextSlide_prevSlide_index_witness:
  "fiveCertificates \<noteq> [] \<and> length fiveCertificates = 5
   \<and> activeIndex (nextSlide fiveCertificates (initial\<lparr>activeIndex := Num 4\<rparr>)) = Num 0
   \<and> activeIndex (prevSlide fiveCertificates (initial\<lparr>activeIndex := Num 4\<rparr>)) = Num 3"
proof -
  have ne: "fiveCertificates \<noteq> []" by (simp add: fiveCertificates_def)
  show ?thesis
    using ne nextSlide_prevSlide_index [OF ne, of "initial\<lparr>activeIndex := Num 4\<rparr>" 4]
    by (simp add: length_five)
qed

text \<open>
  Claim C3. For a non-empty certificate list, every sequence of events that starts in
  the initial state and clicks only cards that are rendered leaves an active index
  \<open>k\<close> with \<open>0 \<le> k < N\<close>. The events are all the handlers of the component, so the
  sequences of \<open>next\<close>, \<open>prev\<close> and \<open>jumpTo\<close> are among them.
\<close>

theorem activeIndex_always_valid:
  assumes "certificates \<noteq> []" and "\<forall>e \<in> set es. rendered certificates e"
  shows "\<exists>k. activeIndex (run certificates es initial) = Num k
           \<and> 0 \<le> k \<and> k < int (length certificates)"
proof -
  have "validIndex certificates (run certificates es initial)"
    using assms by (simp add: validIndex_run validIndex_initial)
  then show ?thesis
    by (auto simp: validIndex_def split: number.splits)
qed

theorem activeIndex_always_valid_witness:
  "fiveCertificates \<noteq> []
   \<and> rendered fiveCertificates (CardClick 3)
   \<and> (\<exists>k. activeIndex (run fiveCertificates [PrevButton, CardClick 3, MouseDown 300, MouseUp 100] initial) = Num k
           \<and> 0 \<le> k \<and> k < int (length fiveCertificates))"
proof -
  have ne: "fiveCertificates \<noteq> []" by (simp add: fiveCertificates_def)
  have r: "\<forall>e \<in> set [PrevButton, CardClick 3, MouseDown 300, MouseUp 100].
             rendered fiveCertificates e"
    by (simp add: length_five)
  have "rendered fiveCertificates (CardClick 3)"
    by (simp add: length_five)
  with ne activeIndex_always_valid [OF ne r] show ?thesis by blast
qed

text \<open>
  Claim C4. For a list of \<open>N \<ge> 1\<close> certificates and an active index in range,
  \<open>nextSlide\<close> followed by \<open>prevSlide\<close> gives back the state it started from, and so
  does \<open>prevSlide\<close> followed by \<open>nextSlide\<close>.
\<close>

theorem next_prev_round_trip:
  assumes "certificates \<noteq> []" and "activeIndex s = Num i"
    and "0 \<le> i" and "i < int (length certificates)"
  shows "prevSlide certificates (nextSlide certificates s) = s
       \<and> nextSlide certificates (prevSlide certificates s) = s"
proof -
  let ?n = "int (length certificates)"
  from assms have n: "0 < ?n" by linarith
  have up: "activeIndex (nextSlide certificates s) = Num ((i + 1) mod ?n)"
    using assms by (intro activeIndex_nextSlide)
  have down: "activeIndex (prevSlide certificates s) = Num ((i - 1 + ?n) mod ?n)"
    using assms by (intro activeIndex_prevSlide)
  have up_range: "0 \<le> (i + 1) mod ?n" "(i + 1) mod ?n < ?n"
    using n by simp_all
  have down_range: "0 \<le> (i - 1 + ?n) mod ?n" "(i - 1 + ?n) mod ?n < ?n"
    using n by simp_all
  have small: "i mod ?n = i"
    using assms by simp
  have there_and_back: "((i + 1) mod ?n - 1 + ?n) mod ?n = i"
  proof (cases "i + 1 = ?n")
    case True
    then have "(i + 1) mod ?n = 0" by simp
    with True have "(i + 1) mod ?n - 1 + ?n = i" by linarith
    with small show ?thesis by simp
  next
    case False
    with assms have "(i + 1) mod ?n = i + 1" by simp
    then have "((i + 1) mod ?n - 1 + ?n) mod ?n = (i + ?n) mod ?n" by simp
    also have "\<dots> = i" using small by simp
    finally show ?thesis .
  qed
  have back_and_there: "((i - 1 + ?n) mod ?n + 1) mod ?n = i"
  proof (cases "i = 0")
    case True
    then have "i - 1 + ?n = ?n - 1" by simp
    moreover have "(?n - 1) mod ?n = ?n - 1"
      using n by (intro mod_pos_pos_trivial) linarith+
    ultimately have "(i - 1 + ?n) mod ?n = ?n - 1" by (simp only:)
    then have "((i - 1 + ?n) mod ?n + 1) mod ?n = ?n mod ?n" by simp
    with True show ?thesis by simp
  next
    case False
    with assms have "0 \<le> i - 1" "i - 1 < ?n" by linarith+
    then have "(i - 1) mod ?n = i - 1" by simp
    then have "(i - 1 + ?n) mod ?n = i - 1" by simp
    with small show ?thesis by simp
  qed
  have "activeIndex (prevSlide certificates (nextSlide certificates s)) = Num i"
    using activeIndex_prevSlide [OF up up_range] there_and_back by simp
  moreover have "activeIndex (nextSlide certificates (prevSlide certificates s)) = Num i"
    using activeIndex_nextSlide [OF down down_range] back_and_there by simp
  moreover have "prevSlide certificates (nextSlide certificates s)
      = s\<lparr>activeIndex := activeIndex (prevSlide certificates (nextSlide certificates s))\<rparr>"
    by (simp add: prevSlide_def nextSlide_def)
  moreover have "nextSlide certificates (prevSlide certificates s)
      = s\<lparr>activeIndex := activeIndex (nextSlide certificates (prevSlide certificates s))\<rparr>"
    by (simp add: prevSlide_def nextSlide_def)
  ultimately show ?thesis using assms(2) by simp
qed

theorem next_prev_round_trip_witness:
  "fiveCertificates \<noteq> []
   \<and> prevSlide fiveCertificates (nextSlide fiveCertificates (initial\<lparr>activeIndex := Num 4\<rparr>))
       = initial\<lparr>activeIndex := Num 4\<rparr>
   \<and> nextSlide fiveCertificates (prevSlide fiveCertificates (initial\<lparr>activeIndex := Num 4\<rparr>))
       = initial\<lparr>activeIndex := Num 4\<rparr>"
proof -
  have ne: "fiveCertificates \<noteq> []" by (simp add: fiveCertificates_def)
  show ?thesis
    using ne next_prev_round_trip [OF ne, of "initial\<lparr>activeIndex := Num 4\<rparr>" 4]
    by (simp add: length_five)
qed

text \<open>
  Claim C5. For a list of \<open>N \<ge> 1\<close> certificates, an active index in range and a card
  index \<open>i < N\<close>, the normalised \<open>diff\<close> of \<open>getCardStyle\<close> is 0 for the active card
  itself, and its absolute value is at most \<open>N div 2\<close> for every card.
\<close>

theorem cardDiff_bounds:
  assumes "certificates \<noteq> []" and "0 \<le> a" and "a < int (length certificates)"
    and "i < length certificates"
  shows "cardDiff certificates (Num (int i)) i = Num 0
       \<and> (\<exists>d. cardDiff certificates (Num a) i = Num d \<and> \<bar>d\<bar> \<le> int (length certificates) div 2)"
  using assms by (auto simp add: cardDiff_cases Let_def)

theorem cardDiff_bounds_witness:
  "fiveCertificates \<noteq> []
   \<and> cardDiff fiveCertificates (Num 3) 3 = Num 0
   \<and> (\<exists>d. cardDiff fiveCertificates (Num 0) 3 = Num d \<and> \<bar>d\<bar> \<le> 2)"
proof -
  have ne: "fiveCertificates \<noteq> []" by (simp add: fiveCertificates_def)
  show ?thesis
    using ne cardDiff_bounds [OF ne, of 0 3] by (simp add: length_five)
qed

subsection \<open>Clicks and drags\<close>

lemma onClick_while_dragging: "isDragging s \<Longrightarrow> onClick i s = s"
  by (simp add: onClick_def)

lemma isDragging_onMouseUp: "\<not> isDragging (onMouseUp cs x (onMouseDown x0 s))"
  by (simp add: onMouseUp_def onMouseDown_def Let_def)

lemma click_after_release:
  "activeIndex (onClick i (onMouseUp cs x (onMouseDown x0 s))) = Num (int i)"
  using isDragging_onMouseUp [of cs x x0 s] by (simp add: onClick_def)

text \<open>
  Claim C6. A click on a card is ignored while \<open>isDragging\<close> is set
  (\<open>onClick_while_dragging\<close>). But \<open>onMouseUp\<close> clears \<open>isDragging\<close>, and the click
  event of a drag is delivered after the release: with five certificates, a drag
  from 200 to 100 moves the active index from 0 to 1, and the click that follows on
  the card the drag started on, card 0, moves it back to 0, the index of the clicked
  card.
\<close>

theorem click_after_drag_release:
  "activeIndex (run fiveCertificates [MouseDown 200, MouseUp 100] initial) = Num 1
   \<and> activeIndex (run fiveCertificates [MouseDown 200, MouseUp 100, CardClick 0] initial)
       = Num 0"
  by (simp add: length_five initial_def onMouseDown_def onMouseUp_def onClick_def
      nextSlide_def js_rem_def minSwipeDistance_def Let_def)

subsection \<open>Swipes\<close>

lemma onMouseUp_release:
  assumes "isDragging s" and "dragStartX s = Some start"
  shows "activeIndex (onMouseUp cs e s) =
           (if start - e > 50 then activeIndex (nextSlide cs s)
            else if start - e < - 50 then activeIndex (prevSlide cs s)
            else activeIndex s)"
  using assms by (simp add: onMouseUp_def minSwipeDistance_def Let_def)

lemma onTouchEnd_release:
  assumes "touchStart s = Some start" and "touchEnd s = Some e"
    and "start \<noteq> 0" and "e \<noteq> 0"
  shows "activeIndex (onTouchEnd cs s) =
           (if start - e > 50 then activeIndex (nextSlide cs s)
            else if start - e < - 50 then activeIndex (prevSlide cs s)
            else activeIndex s)"
  using assms by (simp add: onTouchEnd_def minSwipeDistance_def Let_def)

lemma onTouchEnd_at_zero:
  "touchStart s = Some 0 \<or> touchEnd s = Some 0 \<Longrightarrow> onTouchEnd cs s = s"
  by (auto simp: onTouchEnd_def)

text \<open>
  Claim C7. A release more than 50 px to the left of the start triggers \<open>nextSlide\<close>,
  one more than 50 px to the right triggers \<open>prevSlide\<close>, and anything else leaves the
  active index alone: so it is for the mouse (\<open>onMouseUp_release\<close>), which tests
  \<open>dragStartX === null\<close>, and for a touch whose two positions are not 0
  (\<open>onTouchEnd_release\<close>). \<open>onTouchEnd\<close> tests \<open>!touchStart || !touchEnd\<close>, and the
  position 0 is falsy: a touch that starts at 100 and is released at 0, the left
  edge, is a leftward swipe of 100 px and leaves the active index at 0, where the
  same drag with the mouse moves it to 1.
\<close>

theorem touch_swipe_to_edge:
  "activeIndex (run fiveCertificates [TouchStart 100, TouchMove 0, TouchEnd] initial) = Num 0
   \<and> activeIndex (run fiveCertificates [MouseDown 100, MouseUp 0] initial) = Num 1"
  by (simp add: length_five initial_def onTouchStart_def onTouchMove_def onTouchEnd_def
      onMouseDown_def onMouseUp_def nextSlide_def js_rem_def minSwipeDistance_def Let_def)

section \<open>Properties of the project filter\<close>

lemma startsWith_prefix: "startsWith s q = prefix q s"
  by (induction s q rule: startsWith.induct) auto

lemma str_includes_sublist: "str_includes s q = sublist q s"
  by (induction s) (simp_all add: startsWith_prefix sublist_Cons_right)

lemma containsIgnoringCase_code:
  "containsIgnoringCase s q = str_includes (toLowerCase s) (toLowerCase q)"
proof
  assume "containsIgnoringCase s q"
  then obtain b p a where "s = b @ p @ a" "toLowerCase p = toLowerCase q"
    by (auto simp: containsIgnoringCase_def)
  then have "toLowerCase s = toLowerCase b @ toLowerCase q @ toLowerCase a"
    by (simp add: toLowerCase_def)
  then show "str_includes (toLowerCase s) (toLowerCase q)"
    by (auto simp: str_includes_sublist sublist_def)
next
  assume "str_includes (toLowerCase s) (toLowerCase q)"
  then obtain b' a' where e: "map toLowerChar s = b' @ map toLowerChar q @ a'"
    by (auto simp: str_includes_sublist sublist_def toLowerCase_def)
  then have "\<exists>us vs. s = us @ vs \<and> b' = map toLowerChar us
      \<and> map toLowerChar q @ a' = map toLowerChar vs"
    by (simp only: map_eq_append_conv)
  then obtain b r where s: "s = b @ r" and r: "map toLowerChar r = map toLowerChar q @ a'"
    by metis
  from r have "\<exists>us vs. r = us @ vs \<and> map toLowerChar q = map toLowerChar us
      \<and> a' = map toLowerChar vs"
    by (simp only: map_eq_append_conv)
  then obtain p a where "r = p @ a" "map toLowerChar p = map toLowerChar q"
    by metis
  with s have "s = b @ p @ a \<and> toLowerCase p = toLowerCase q"
    by (simp add: toLowerCase_def)
  then show "containsIgnoringCase s q"
    unfolding containsIgnoringCase_def by blast
qed

lemma filteredProjects_spec:
  assumes "selectedTag \<noteq> Some []"
  shows "filteredProjects projects search selectedTag = filter (spec_visible search selectedTag) projects"
  using assms
  by (auto simp: filteredProjects_def spec_visible_def matchesSearch_def matchesTag_def
      containsIgnoringCase_code split: option.splits intro!: filter_cong)

lemma containsIgnoringCase_empty: "containsIgnoringCase s []"
  by (simp add: containsIgnoringCase_code toLowerCase_def str_includes_sublist)

lemma filteredProjects_empty_search: "filteredProjects projects [] None = projects"
  by (simp add: filteredProjects_def matchesSearch_def matchesTag_def toLowerCase_def
      str_includes_sublist)

text \<open>
  Claim C1. For a search string \<open>q\<close> and a selected tag that is absent or not the
  empty string, \<open>filteredProjects\<close> is the list of the projects that the contract
  selects, in their order (\<open>filteredProjects_spec\<close>), and the empty search string
  matches every project. The empty string is a tag like any other: the scenario has
  it among \<open>allTags\<close>, and a click on its button selects it. With that tag selected
  the contract keeps the one project that carries it, and \<open>filteredProjects\<close> keeps
  both projects, since the test \<open>selectedTag ? \<dots> : true\<close> takes the empty string
  for no selection.
\<close>

theorem filter_by_empty_tag:
  "[] \<in> set (allTags [project ''Foo'' [''go''], project ''Bar'' [[]]])
   \<and> clickTag [] None = Some []
   \<and> filteredProjects [project ''Foo'' [''go''], project ''Bar'' [[]]] [] (Some [])
       = [project ''Foo'' [''go''], project ''Bar'' [[]]]
   \<and> filter (spec_visible [] (Some [])) [project ''Foo'' [''go''], project ''Bar'' [[]]]
       = [project ''Bar'' [[]]]"
  by (simp add: allTags_def clickTag_def filteredProjects_def matchesSearch_def
      matchesTag_def toLowerCase_def spec_visible_def containsIgnoringCase_empty project_def)

section \<open>Properties of the image pipeline\<close>

subsection \<open>What \<open>mkdir\<close> makes and when it rejects\<close>

lemma addEntry_None: "(addEntry dir name ds p = None) = (ds p = None)"
  by (simp add: addEntry_def split: option.splits)

lemma addEntry_other: "p \<noteq> dir \<Longrightarrow> addEntry dir name ds p = ds p"
  by (simp add: addEntry_def split: option.splits)

lemma addEntry_grows:
  assumes "ds q = Some ns"
  shows "\<exists>ns'. addEntry dir name ds q = Some ns' \<and> set ns \<subseteq> set ns'"
  using assms by (auto simp: addEntry_def split: option.splits)

lemma addEntry_entered:
  assumes "ds dir = Some ns"
  shows "\<exists>ns'. addEntry dir name ds dir = Some ns' \<and> name \<in> set ns'"
  using assms by (auto simp: addEntry_def)

lemma mkdir1_other: "q \<noteq> p \<Longrightarrow> q \<noteq> butlast p \<Longrightarrow> mkdir1 p ds q = ds q"
  by (auto simp: mkdir1_def addEntry_other)

lemma mkdir1_None: "mkdir1 p ds q = None \<Longrightarrow> ds q = None"
  by (auto simp: mkdir1_def addEntry_None split: if_splits)

lemma mkdir1_made: "mkdir1 p ds p \<noteq> None"
proof
  assume "mkdir1 p ds p = None"
  then show False
    by (auto simp: mkdir1_def addEntry_None split: if_splits)
qed

lemma butlast_neq: "p \<noteq> [] \<Longrightarrow> butlast p \<noteq> p"
  by (metis append_butlast_last_id append_self_conv not_Cons_self2)

lemma mkdir1_new: "ds p = None \<Longrightarrow> mkdir1 p ds p = Some []"
proof (cases "p = []")
  case True
  then show "ds p = None \<Longrightarrow> ?thesis" by (simp add: mkdir1_def)
next
  case False
  then show "ds p = None \<Longrightarrow> ?thesis"
    using butlast_neq [OF False] by (simp add: mkdir1_def addEntry_other)
qed

lemma mkdir1_grows:
  assumes "ds q = Some ns"
  shows "\<exists>ns'. mkdir1 p ds q = Some ns' \<and> set ns \<subseteq> set ns'"
proof (cases "ds p = None \<and> p \<noteq> []")
  case True
  then have "q \<noteq> p" using assms by auto
  then have "(ds(p \<mapsto> [])) q = Some ns" using assms by simp
  with addEntry_grows [where ds = "ds(p \<mapsto> [])" and q = q and ns = ns
      and dir = "butlast p" and name = "last p"] True
  show ?thesis by (simp add: mkdir1_def)
next
  case False
  with assms show ?thesis by (auto simp: mkdir1_def)
qed

lemma mkdir1_entered:
  assumes "ds p = None" and "p \<noteq> []" and "ds (butlast p) \<noteq> None"
  shows "\<exists>ns. mkdir1 p ds (butlast p) = Some ns \<and> last p \<in> set ns"
proof -
  from assms(3) obtain ns0 where "ds (butlast p) = Some ns0" by auto
  with butlast_neq [OF assms(2)] have "(ds(p \<mapsto> [])) (butlast p) = Some ns0" by simp
  with addEntry_entered [where ds = "ds(p \<mapsto> [])" and dir = "butlast p" and ns = ns0
      and name = "last p"] assms(1,2)
  show ?thesis by (simp add: mkdir1_def)
qed

lemma prefix_butlast: "prefix p q \<Longrightarrow> prefix (butlast p) q"
  by (meson prefix_order.trans prefixeq_butlast)

text \<open>When \<open>mkdirs\<close> rejects and when it does not.\<close>

lemma mkdirs_Inr_iff:
  "(\<exists>ds'. mkdirs made rest fs ds = Inr ds')
     = (\<forall>p. prefix made p \<and> prefix p (made @ rest) \<longrightarrow> fs p = None)"
proof (induction rest arbitrary: made ds)
  case Nil
  show ?case by (auto simp: prefix_order.antisym_conv)
next
  case (Cons name rest)
  have between: "(prefix made p \<and> prefix p (made @ name # rest))
      = (p = made \<or> (prefix (made @ [name]) p \<and> prefix p ((made @ [name]) @ rest)))" for p
  proof
    assume a: "prefix made p \<and> prefix p (made @ name # rest)"
    show "p = made \<or> (prefix (made @ [name]) p \<and> prefix p ((made @ [name]) @ rest))"
    proof (cases "p = made")
      case False
      from a obtain t where t: "p = made @ t" by (auto simp: prefix_def)
      with False have "t \<noteq> []" by auto
      moreover from a t have "prefix t (name # rest)" by simp
      ultimately obtain t' where "t = name # t'"
        by (cases t) (auto simp: prefix_Cons)
      with t a show ?thesis by simp
    qed simp
  next
    assume "p = made \<or> (prefix (made @ [name]) p \<and> prefix p ((made @ [name]) @ rest))"
    then show "prefix made p \<and> prefix p (made @ name # rest)"
      by (auto intro: append_prefixD)
  qed
  show ?case
    unfolding between using Cons.IH [where made = "made @ [name]" and ds = "mkdir1 made ds"]
    by auto
qed

lemma mkdirs_other:
  "mkdirs made rest fs ds = Inr ds' \<Longrightarrow> \<not> prefix q (made @ rest) \<Longrightarrow> ds' q = ds q"
proof (induction rest arbitrary: made ds)
  case Nil
  then have "q \<noteq> made" "q \<noteq> butlast made"
    using prefixeq_butlast [of "made"] by auto
  with Nil show ?case by (auto simp: mkdir1_other split: if_splits)
next
  case (Cons name rest)
  have "prefix made (made @ name # rest)" by simp
  with Cons.prems have "q \<noteq> made" "q \<noteq> butlast made"
    using prefix_butlast [of "made" "made @ name # rest"] by auto
  then have "mkdir1 made ds q = ds q" by (simp add: mkdir1_other)
  moreover from Cons.prems have run: "mkdirs (made @ [name]) rest fs (mkdir1 made ds) = Inr ds'"
    by (simp split: if_splits)
  from Cons.prems(2) have "\<not> prefix q ((made @ [name]) @ rest)" by simp
  from Cons.IH [OF run this] have "ds' q = mkdir1 made ds q" .
  ultimately show ?case by simp
qed

lemma mkdirs_None: "mkdirs made rest fs ds = Inr ds' \<Longrightarrow> ds' q = None \<Longrightarrow> ds q = None"
proof (induction rest arbitrary: made ds)
  case Nil
  then show ?case by (auto simp: mkdir1_None split: if_splits)
next
  case (Cons name rest)
  from Cons.prems have "mkdirs (made @ [name]) rest fs (mkdir1 made ds) = Inr ds'"
    by (simp split: if_splits)
  from Cons.IH [OF this Cons.prems(2)] show ?case by (rule mkdir1_None)
qed

lemma mkdirs_grows:
  "mkdirs made rest fs ds = Inr ds' \<Longrightarrow> ds q = Some ns
     \<Longrightarrow> \<exists>ns'. ds' q = Some ns' \<and> set ns \<subseteq> set ns'"
proof (induction rest arbitrary: made ds ns)
  case Nil
  then show ?case
    using mkdir1_grows [where ds = ds and q = q and ns = ns and p = made]
    by (auto split: if_splits)
next
  case (Cons name rest)
  from Cons.prems have run: "mkdirs (made @ [name]) rest fs (mkdir1 made ds) = Inr ds'"
    by (simp split: if_splits)
  from mkdir1_grows [where ds = ds and q = q and ns = ns and p = made] Cons.prems(2)
  obtain ns1 where
    ns1: "mkdir1 made ds q = Some ns1" "set ns \<subseteq> set ns1" by blast
  from Cons.IH [OF run ns1(1)] ns1(2) show ?case by auto
qed

lemma mkdirs_made:
  "mkdirs made rest fs ds = Inr ds' \<Longrightarrow> prefix made p \<Longrightarrow> prefix p (made @ rest)
     \<Longrightarrow> ds' p \<noteq> None"
proof (induction rest arbitrary: made ds)
  case Nil
  then have "p = made" by (simp add: prefix_order.antisym_conv)
  with Nil mkdir1_made [of made ds] show ?case by (auto split: if_splits)
next
  case (Cons name rest)
  from Cons.prems have run: "mkdirs (made @ [name]) rest fs (mkdir1 made ds) = Inr ds'"
    by (simp split: if_splits)
  show ?case
  proof (cases "p = made")
    case True
    have "mkdir1 made ds made \<noteq> None" by (rule mkdir1_made)
    then obtain ns where "mkdir1 made ds made = Some ns" by auto
    from mkdirs_grows [OF run this] True show ?thesis by auto
  next
    case False
    from Cons.prems obtain t where t: "p = made @ t" by (auto simp: prefix_def)
    with False have "t \<noteq> []" by auto
    moreover from Cons.prems t have "prefix t (name # rest)" by simp
    ultimately obtain t' where "t = name # t'"
      by (cases t) (auto simp: prefix_Cons)
    with t Cons.prems have "prefix (made @ [name]) p" "prefix p ((made @ [name]) @ rest)"
      by simp_all
    from Cons.IH [OF run this] show ?thesis .
  qed
qed

lemma mkdirs_new:
  "mkdirs made rest fs ds = Inr ds' \<Longrightarrow> ds (made @ rest) = None
     \<Longrightarrow> ds' (made @ rest) = Some []"
proof (induction rest arbitrary: made ds)
  case Nil
  then show ?case by (auto simp: mkdir1_new split: if_splits)
next
  case (Cons name rest)
  from Cons.prems have run: "mkdirs (made @ [name]) rest fs (mkdir1 made ds) = Inr ds'"
    by (simp split: if_splits)
  have "made @ name # rest \<noteq> made" by simp
  moreover have "made @ name # rest \<noteq> butlast made"
  proof
    assume "made @ name # rest = butlast made"
    then have "length (made @ name # rest) = length (butlast made)" by simp
    then show False by simp
  qed
  ultimately have "mkdir1 made ds (made @ name # rest) = None"
    using Cons.prems by (simp add: mkdir1_other)
  with Cons.IH [OF run] show ?case by simp
qed

lemma mkdirs_entered:
  "mkdirs made rest fs ds = Inr ds' \<Longrightarrow> made = [] \<or> ds (butlast made) \<noteq> None
     \<Longrightarrow> prefix made p \<Longrightarrow> prefix p (made @ rest) \<Longrightarrow> p \<noteq> [] \<Longrightarrow> ds p = None
     \<Longrightarrow> \<exists>ns. ds' (butlast p) = Some ns \<and> last p \<in> set ns"
proof (induction rest arbitrary: made ds)
  case Nil
  then have p: "p = made" by (simp add: prefix_order.antisym_conv)
  with Nil have "ds made = None" "made \<noteq> []" "ds (butlast made) \<noteq> None" by auto
  from mkdir1_entered [OF this] Nil.prems(1) p show ?case
    by (auto split: if_splits)
next
  case (Cons name rest)
  from Cons.prems have run: "mkdirs (made @ [name]) rest fs (mkdir1 made ds) = Inr ds'"
    by (simp split: if_splits)
  show ?case
  proof (cases "p = made")
    case True
    with Cons.prems have "ds made = None" "made \<noteq> []" "ds (butlast made) \<noteq> None" by auto
    from mkdir1_entered [OF this] obtain ns where
      ns: "mkdir1 made ds (butlast made) = Some ns" "last made \<in> set ns" by blast
    from mkdirs_grows [OF run ns(1)] ns(2) True show ?thesis by auto
  next
    case False
    from Cons.prems obtain t where t: "p = made @ t" by (auto simp: prefix_def)
    with False have "t \<noteq> []" by auto
    moreover from Cons.prems t have "prefix t (name # rest)" by simp
    ultimately obtain t' where t': "t = name # t'"
      by (cases t) (auto simp: prefix_Cons)
    with t Cons.prems have between: "prefix (made @ [name]) p"
      "prefix p ((made @ [name]) @ rest)"
      by simp_all
    have parent: "made @ [name] = [] \<or> mkdir1 made ds (butlast (made @ [name])) \<noteq> None"
      by (simp add: mkdir1_made)
    have "p \<noteq> butlast made"
    proof
      assume "p = butlast made"
      then have "length p = length (butlast made)" by simp
      with t t' show False by simp
    qed
    with False Cons.prems have absent: "mkdir1 made ds p = None"
      by (simp add: mkdir1_other)
    from Cons.IH [OF run parent between Cons.prems(5) absent] show ?thesis .
  qed
qed

lemma source_not_above_output: "\<not> prefix (OG_SOURCE_DIR ROOT) (OG_OUTPUT_DIR ROOT)"
  by (simp add: OG_SOURCE_DIR_def OG_OUTPUT_DIR_def)

lemma source_file_not_output: "butlast (OG_SOURCE_DIR ROOT @ [name]) \<noteq> OG_OUTPUT_DIR ROOT"
  by (simp add: OG_SOURCE_DIR_def OG_OUTPUT_DIR_def butlast_append)

subsection \<open>One image, and the loop over the images\<close>

lemma buildOne_Inr:
  assumes "files w g = Some c" and "decodable c"
    and "dirs w (outFile ROOT g) = None" and "dirs w (OG_OUTPUT_DIR ROOT) \<noteq> None"
  shows "buildOne decodable ROOT g w =
    (Inr (outFile ROOT g),
     w\<lparr>trace := trace w @ [ToFile g (outFile ROOT g)],
       files := (files w)(outFile ROOT g \<mapsto> Encoded c ogEncoding),
       dirs := addEntry (OG_OUTPUT_DIR ROOT) (outNameFromInput g) (dirs w)\<rparr>)"
  using assms
  by (simp add: buildOne_def toFile_def outFile_def called_def ogEncoding_def WIDTH_def
      HEIGHT_def Let_def)

lemma encodes_iff:
  assumes "dirs w (OG_OUTPUT_DIR ROOT) \<noteq> None"
  shows "encodes decodable ROOT w g =
    (\<exists>c. files w g = Some c \<and> decodable c \<and> dirs w (outFile ROOT g) = None)"
  using assms
  by (auto simp: encodes_def buildOne_def toFile_def outFile_def Let_def
      split: option.splits)

lemma buildOne_Inl:
  assumes "\<not> encodes decodable ROOT w g"
  shows "\<exists>e. buildOne decodable ROOT g w = (Inl e, called (ToFile g (outFile ROOT g)) w)"
  using assms
  by (auto simp: encodes_def buildOne_def toFile_def outFile_def Let_def
      split: option.splits if_splits)

lemma butlast_outFile: "butlast (outFile ROOT g) = OG_OUTPUT_DIR ROOT"
  by (simp add: outFile_def)

lemma buildAll_append:
  "buildAll decodable ROOT (pre @ rest) results w =
     (case buildAll decodable ROOT pre results w of
        (Inl e, w') \<Rightarrow> (Inl e, w')
      | (Inr r, w') \<Rightarrow> buildAll decodable ROOT rest r w')"
  by (induction pre arbitrary: results w) (simp_all split: prod.splits sum.splits)

lemma buildAll_all_encode:
  assumes "\<forall>g \<in> set inputs. encodes decodable ROOT w g"
    and "\<forall>g \<in> set inputs. butlast g \<noteq> OG_OUTPUT_DIR ROOT"
    and "dirs w (OG_OUTPUT_DIR ROOT) \<noteq> None"
  shows "\<exists>w'. buildAll decodable ROOT inputs results w
               = (Inr (results @ map (outFile ROOT) inputs), w')
    \<and> trace w' = trace w @ map (\<lambda>g. ToFile g (outFile ROOT g)) inputs
    \<and> (\<forall>p. (dirs w' p = None) = (dirs w p = None))
    \<and> (\<forall>p. p \<notin> outFile ROOT ` set inputs \<longrightarrow> files w' p = files w p)
    \<and> (\<forall>g \<in> set inputs. \<exists>h \<in> set inputs. \<exists>c. outFile ROOT h = outFile ROOT g
          \<and> files w h = Some c
          \<and> files w' (outFile ROOT g) = Some (Encoded c ogEncoding))"
  using assms
proof (induction inputs arbitrary: w results)
  case Nil
  then show ?case by simp
next
  case (Cons g inputs)
  let ?OUT = "OG_OUTPUT_DIR ROOT"
  from Cons.prems have out: "dirs w ?OUT \<noteq> None" by simp
  from Cons.prems have "encodes decodable ROOT w g" by simp
  with out obtain c where c: "files w g = Some c" "decodable c" "dirs w (outFile ROOT g) = None"
    by (auto simp: encodes_iff)
  define w1 where "w1 = w\<lparr>trace := trace w @ [ToFile g (outFile ROOT g)],
       files := (files w)(outFile ROOT g \<mapsto> Encoded c ogEncoding),
       dirs := addEntry ?OUT (outNameFromInput g) (dirs w)\<rparr>"
  have one: "buildOne decodable ROOT g w = (Inr (outFile ROOT g), w1)"
    unfolding w1_def using c out by (rule buildOne_Inr)
  have dirs1: "(dirs w1 p = None) = (dirs w p = None)" for p
    by (simp add: w1_def addEntry_None)
  have files1: "files w1 p = files w p" if "p \<noteq> outFile ROOT g" for p
    using that by (simp add: w1_def)
  have trace1: "trace w1 = trace w @ [ToFile g (outFile ROOT g)]"
    by (simp add: w1_def)
  have at_g: "files w1 (outFile ROOT g) = Some (Encoded c ogEncoding)"
    by (simp add: w1_def)
  have not_out: "h \<noteq> outFile ROOT g" if "butlast h \<noteq> ?OUT" for h
    using that butlast_outFile [of ROOT g] by auto
  have out1: "dirs w1 ?OUT \<noteq> None"
    using out dirs1 by simp
  have enc1: "\<forall>h \<in> set inputs. encodes decodable ROOT w1 h"
  proof
    fix h assume h: "h \<in> set inputs"
    with Cons.prems have "encodes decodable ROOT w h" "butlast h \<noteq> ?OUT" by simp_all
    then show "encodes decodable ROOT w1 h"
      using out out1 not_out [of h] by (simp add: encodes_iff files1 dirs1)
  qed
  from Cons.prems have apart: "\<forall>h \<in> set inputs. butlast h \<noteq> ?OUT" by simp
  from Cons.IH [OF enc1 apart out1, of "results @ [outFile ROOT g]"]
  obtain w' where w':
    "buildAll decodable ROOT inputs (results @ [outFile ROOT g]) w1
       = (Inr ((results @ [outFile ROOT g]) @ map (outFile ROOT) inputs), w')"
    "trace w' = trace w1 @ map (\<lambda>g. ToFile g (outFile ROOT g)) inputs"
    "\<forall>p. (dirs w' p = None) = (dirs w1 p = None)"
    "\<forall>p. p \<notin> outFile ROOT ` set inputs \<longrightarrow> files w' p = files w1 p"
    "\<forall>g \<in> set inputs. \<exists>h \<in> set inputs. \<exists>c. outFile ROOT h = outFile ROOT g
          \<and> files w1 h = Some c
          \<and> files w' (outFile ROOT g) = Some (Encoded c ogEncoding)"
    by blast
  have run: "buildAll decodable ROOT (g # inputs) results w
      = (Inr (results @ map (outFile ROOT) (g # inputs)), w')"
    using one w'(1) by simp
  have tr: "trace w' = trace w @ map (\<lambda>g. ToFile g (outFile ROOT g)) (g # inputs)"
    using w'(2) trace1 by simp
  have ds: "\<forall>p. (dirs w' p = None) = (dirs w p = None)"
    using w'(3) dirs1 by simp
  have frame: "\<forall>p. p \<notin> outFile ROOT ` set (g # inputs) \<longrightarrow> files w' p = files w p"
    using w'(4) files1 by simp
  have made: "\<exists>h \<in> set (g # inputs). \<exists>c. outFile ROOT h = outFile ROOT k
          \<and> files w h = Some c
          \<and> files w' (outFile ROOT k) = Some (Encoded c ogEncoding)"
    if k: "k \<in> set (g # inputs)" for k
  proof (cases "outFile ROOT k \<in> outFile ROOT ` set inputs")
    case True
    then obtain k' where k': "k' \<in> set inputs" "outFile ROOT k' = outFile ROOT k" by auto
    with w'(5) obtain h c' where h: "h \<in> set inputs" "outFile ROOT h = outFile ROOT k'"
      "files w1 h = Some c'" "files w' (outFile ROOT k') = Some (Encoded c' ogEncoding)"
      by blast
    from h(1) apart have "h \<noteq> outFile ROOT g" by (simp add: not_out)
    with h(3) have "files w h = Some c'" by (simp add: files1)
    with h k' show ?thesis by auto
  next
    case False
    with k have kg: "k = g" by auto
    from False w'(4) have "files w' (outFile ROOT k) = files w1 (outFile ROOT k)" by simp
    with kg at_g c(1) show ?thesis by auto
  qed
  from run tr ds frame made show ?case by blast
qed

lemma buildAll_first_failure:
  assumes "\<forall>g \<in> set pre. encodes decodable ROOT w g"
    and "\<not> encodes decodable ROOT w f"
    and "\<forall>g \<in> set (pre @ [f]). butlast g \<noteq> OG_OUTPUT_DIR ROOT"
    and "dirs w (OG_OUTPUT_DIR ROOT) \<noteq> None"
  shows "\<exists>e w'. buildAll decodable ROOT (pre @ f # post) results w = (Inl e, w')
    \<and> trace w' = trace w @ map (\<lambda>g. ToFile g (outFile ROOT g)) (pre @ [f])
    \<and> (\<forall>p. (dirs w' p = None) = (dirs w p = None))
    \<and> (\<forall>p. p \<notin> outFile ROOT ` set pre \<longrightarrow> files w' p = files w p)
    \<and> (\<forall>g \<in> set pre. \<exists>h \<in> set pre. \<exists>c. outFile ROOT h = outFile ROOT g
          \<and> files w h = Some c
          \<and> files w' (outFile ROOT g) = Some (Encoded c ogEncoding))"
proof -
  let ?OUT = "OG_OUTPUT_DIR ROOT"
  from assms(3) have apart: "\<forall>g \<in> set pre. butlast g \<noteq> ?OUT" and f: "butlast f \<noteq> ?OUT"
    by simp_all
  from buildAll_all_encode [OF assms(1) apart assms(4), of results]
  obtain w1 where w1:
    "buildAll decodable ROOT pre results w = (Inr (results @ map (outFile ROOT) pre), w1)"
    "trace w1 = trace w @ map (\<lambda>g. ToFile g (outFile ROOT g)) pre"
    "\<forall>p. (dirs w1 p = None) = (dirs w p = None)"
    "\<forall>p. p \<notin> outFile ROOT ` set pre \<longrightarrow> files w1 p = files w p"
    "\<forall>g \<in> set pre. \<exists>h \<in> set pre. \<exists>c. outFile ROOT h = outFile ROOT g
          \<and> files w h = Some c
          \<and> files w1 (outFile ROOT g) = Some (Encoded c ogEncoding)"
    by blast
  have "f \<notin> outFile ROOT ` set pre"
    using f butlast_outFile [of ROOT] by auto
  with w1(4) have same: "files w1 f = files w f" by simp
  from w1(3) assms(4) have out1: "dirs w1 ?OUT \<noteq> None" by simp
  have "encodes decodable ROOT w1 f = encodes decodable ROOT w f"
    using out1 assms(4) w1(3) same by (simp add: encodes_iff)
  with assms(2) have "\<not> encodes decodable ROOT w1 f" by simp
  then obtain e where e: "buildOne decodable ROOT f w1
      = (Inl e, called (ToFile f (outFile ROOT f)) w1)"
    using buildOne_Inl by blast
  have "buildAll decodable ROOT (pre @ f # post) results w
      = (Inl e, called (ToFile f (outFile ROOT f)) w1)"
    using w1(1) e by (simp add: buildAll_append)
  moreover have "trace (called (ToFile f (outFile ROOT f)) w1)
      = trace w @ map (\<lambda>g. ToFile g (outFile ROOT g)) (pre @ [f])"
    using w1(2) by (simp add: called_def)
  moreover have "dirs (called (ToFile f (outFile ROOT f)) w1) = dirs w1"
    "files (called (ToFile f (outFile ROOT f)) w1) = files w1"
    by (simp_all add: called_def)
  ultimately show ?thesis using w1(3,4,5) by auto
qed

lemma toFile_frame:
  assumes "toFile decodable input enc out w = (r, w')"
  shows "trace w' = trace w @ [ToFile input out] \<and> (\<forall>p. (dirs w' p = None) = (dirs w p = None))"
  using assms
  by (auto simp: toFile_def called_def Let_def addEntry_None split: option.splits if_splits)

lemma buildOne_frame:
  assumes "buildOne decodable ROOT g w = (r, w')"
  shows "trace w' = trace w @ [ToFile g (outFile ROOT g)]
    \<and> (\<forall>p. (dirs w' p = None) = (dirs w p = None))"
  using assms toFile_frame
  by (fastforce simp: buildOne_def outFile_def Let_def split: prod.splits sum.splits)

lemma buildAll_frame:
  assumes "buildAll decodable ROOT inputs results w = (r, w')"
  shows "(\<exists>cs. trace w' = trace w @ cs \<and> (\<forall>c \<in> set cs. \<exists>g out. c = ToFile g out))
    \<and> (\<forall>p. (dirs w' p = None) = (dirs w p = None))"
  using assms
proof (induction inputs arbitrary: results w)
  case Nil
  then show ?case by simp
next
  case (Cons g inputs)
  obtain r1 w1 where one: "buildOne decodable ROOT g w = (r1, w1)"
    by (cases "buildOne decodable ROOT g w")
  note f1 = buildOne_frame [OF one]
  show ?case
  proof (cases r1)
    case (Inl e)
    with one Cons.prems have "w' = w1" by simp
    with f1 show ?thesis by simp
  next
    case (Inr out)
    with one Cons.prems
    have "buildAll decodable ROOT inputs (results @ [out]) w1 = (r, w')" by simp
    from Cons.IH [OF this] f1 show ?thesis by auto
  qed
qed

lemma toFile_grows:
  assumes "toFile decodable input enc out w = (r, w')" and "dirs w q = Some ns"
  shows "\<exists>ns'. dirs w' q = Some ns' \<and> set ns \<subseteq> set ns'"
proof (cases r)
  case (Inl e)
  with assms show ?thesis
    by (auto simp: toFile_def called_def Let_def split: option.splits if_splits)
next
  case (Inr u)
  with assms(1) have "dirs w' = addEntry (butlast out) (last out) (dirs w)"
    by (auto simp: toFile_def called_def Let_def split: option.splits if_splits)
  with addEntry_grows [where ds = "dirs w" and q = q and ns = ns and dir = "butlast out"
      and name = "last out"] assms(2)
  show ?thesis by simp
qed

lemma buildOne_grows:
  assumes "buildOne decodable ROOT g w = (r, w')" and "dirs w q = Some ns"
  shows "\<exists>ns'. dirs w' q = Some ns' \<and> set ns \<subseteq> set ns'"
proof -
  obtain r0 w0 where t: "toFile decodable g
      \<lparr>width = WIDTH, height = HEIGHT, fit = ''cover'', position = ''centre'',
       format = ''webp'', quality = 82\<rparr>
      (OG_OUTPUT_DIR ROOT @ [outNameFromInput g]) w = (r0, w0)"
    by (metis surj_pair)
  with assms(1) have "w' = w0"
    by (auto simp: buildOne_def Let_def split: sum.splits)
  with toFile_grows [OF t assms(2)] show ?thesis by simp
qed

lemma buildAll_grows:
  assumes "buildAll decodable ROOT inputs results w = (r, w')" and "dirs w q = Some ns"
  shows "\<exists>ns'. dirs w' q = Some ns' \<and> set ns \<subseteq> set ns'"
  using assms
proof (induction inputs arbitrary: results w ns)
  case Nil
  then show ?case by simp
next
  case (Cons g inputs)
  obtain r1 w1 where one: "buildOne decodable ROOT g w = (r1, w1)"
    by (cases "buildOne decodable ROOT g w")
  from buildOne_grows [OF one Cons.prems(2)] obtain ns1 where
    ns1: "dirs w1 q = Some ns1" "set ns \<subseteq> set ns1" by blast
  show ?case
  proof (cases r1)
    case (Inl e)
    with one Cons.prems(1) have "w' = w1" by simp
    with ns1 show ?thesis by simp
  next
    case (Inr out)
    with one Cons.prems(1)
    have "buildAll decodable ROOT inputs (results @ [out]) w1 = (r, w')" by simp
    from Cons.IH [OF this ns1(1)] ns1(2) show ?thesis by auto
  qed
qed



subsection \<open>The outcomes of the script\<close>

lemma ensureDir_Inr:
  assumes "fst (ensureDir dir w) = Inr ()"
  shows "\<exists>ds. mkdirs [] dir (files w) (dirs w) = Inr ds
    \<and> ensureDir dir w = (Inr (), w\<lparr>trace := trace w @ [Mkdir dir], dirs := ds\<rparr>)"
  using assms by (auto simp: ensureDir_def called_def split: sum.splits)

lemma ensureDir_Inl:
  assumes "fst (ensureDir dir w) \<noteq> Inr ()"
  shows "\<exists>e. ensureDir dir w = (Inl e, called (Mkdir dir) w)"
  using assms by (auto simp: ensureDir_def split: sum.splits)

lemma ensureDir_trace:
  "fst (ensureDir dir (w\<lparr>trace := t\<rparr>)) = fst (ensureDir dir w)"
  "dirs (snd (ensureDir dir (w\<lparr>trace := t\<rparr>))) = dirs (snd (ensureDir dir w))"
  "files (snd (ensureDir dir (w\<lparr>trace := t\<rparr>))) = files w"
  "trace (snd (ensureDir dir (w\<lparr>trace := t\<rparr>))) = t @ [Mkdir dir]"
  by (simp_all add: ensureDir_def called_def split: sum.splits)

lemma ensureDir_Inr_iff:
  "(fst (ensureDir dir w) = Inr ()) = (\<forall>p. prefix p dir \<longrightarrow> files w p = None)"
  using mkdirs_Inr_iff [of "[]" dir "files w" "dirs w"]
  by (auto simp: ensureDir_def split: sum.splits)

lemma dirs_at_source:
  assumes "fst (ensureDir (OG_OUTPUT_DIR ROOT) w) = Inr ()"
  shows "dirs (snd (ensureDir (OG_OUTPUT_DIR ROOT) w)) (OG_SOURCE_DIR ROOT)
    = dirs w (OG_SOURCE_DIR ROOT)"
proof -
  from ensureDir_Inr [OF assms] obtain ds where
    ds: "mkdirs [] (OG_OUTPUT_DIR ROOT) (files w) (dirs w) = Inr ds"
    "ensureDir (OG_OUTPUT_DIR ROOT) w
       = (Inr (), w\<lparr>trace := trace w @ [Mkdir (OG_OUTPUT_DIR ROOT)], dirs := ds\<rparr>)"
    by blast
  from mkdirs_other [OF ds(1), of "OG_SOURCE_DIR ROOT"] ds(2) show ?thesis
    by (simp add: source_not_above_output)
qed

lemma dirs_at_ancestors:
  assumes "fst (ensureDir dir w) = Inr ()" and "prefix p dir"
  shows "dirs (snd (ensureDir dir w)) p \<noteq> None"
    and "p \<noteq> [] \<Longrightarrow> dirs w p = None
      \<Longrightarrow> \<exists>ns. dirs (snd (ensureDir dir w)) (butlast p) = Some ns \<and> last p \<in> set ns"
proof -
  from ensureDir_Inr [OF assms(1)] obtain ds where
    ds: "mkdirs [] dir (files w) (dirs w) = Inr ds"
    "ensureDir dir w = (Inr (), w\<lparr>trace := trace w @ [Mkdir dir], dirs := ds\<rparr>)"
    by blast
  from mkdirs_made [OF ds(1), of p] assms(2) ds(2)
  show "dirs (snd (ensureDir dir w)) p \<noteq> None" by simp
  assume "p \<noteq> []" "dirs w p = None"
  with mkdirs_entered [OF ds(1), of p] assms(2) ds(2)
  show "\<exists>ns. dirs (snd (ensureDir dir w)) (butlast p) = Some ns \<and> last p \<in> set ns"
    by simp
qed

lemma dirs_at_output:
  assumes "fst (ensureDir (OG_OUTPUT_DIR ROOT) w) = Inr ()"
  shows "dirs (snd (ensureDir (OG_OUTPUT_DIR ROOT) w)) (OG_OUTPUT_DIR ROOT) \<noteq> None"
  using dirs_at_ancestors(1) [OF assms, of "OG_OUTPUT_DIR ROOT"] by simp

lemma dirs_at_new_output:
  assumes "fst (ensureDir (OG_OUTPUT_DIR ROOT) w) = Inr ()"
    and "dirs w (OG_OUTPUT_DIR ROOT) = None"
  shows "dirs (snd (ensureDir (OG_OUTPUT_DIR ROOT) w)) (OG_OUTPUT_DIR ROOT) = Some []"
proof -
  from ensureDir_Inr [OF assms(1)] obtain ds where
    ds: "mkdirs [] (OG_OUTPUT_DIR ROOT) (files w) (dirs w) = Inr ds"
    "ensureDir (OG_OUTPUT_DIR ROOT) w
       = (Inr (), w\<lparr>trace := trace w @ [Mkdir (OG_OUTPUT_DIR ROOT)], dirs := ds\<rparr>)"
    by blast
  from mkdirs_new [OF ds(1)] assms(2) ds(2) show ?thesis by simp
qed

lemma dirs_kept:
  assumes "fst (ensureDir dir w) = Inr ()"
  shows "(dirs (snd (ensureDir dir w)) q = None) \<Longrightarrow> dirs w q = None"
proof -
  from ensureDir_Inr [OF assms] obtain ds where
    ds: "mkdirs [] dir (files w) (dirs w) = Inr ds"
    "ensureDir dir w = (Inr (), w\<lparr>trace := trace w @ [Mkdir dir], dirs := ds\<rparr>)"
    by blast
  assume "dirs (snd (ensureDir dir w)) q = None"
  with ds(2) have "ds q = None" by simp
  from mkdirs_None [OF ds(1) this] show ?thesis .
qed

text \<open>The world after the first call, when the output directory could be made.\<close>

lemma ensureDir_world:
  assumes "fst (ensureDir (OG_OUTPUT_DIR ROOT) w) = Inr ()"
  shows "ensureDir (OG_OUTPUT_DIR ROOT) (w\<lparr>trace := []\<rparr>)
    = (Inr (), w\<lparr>dirs := dirs (snd (ensureDir (OG_OUTPUT_DIR ROOT) w)),
                 trace := [Mkdir (OG_OUTPUT_DIR ROOT)]\<rparr>)"
  using assms by (auto simp: ensureDir_def called_def split: sum.splits)

lemma script_mkdir_rejects:
  assumes "fst (ensureDir (OG_OUTPUT_DIR ROOT) w) \<noteq> Inr ()"
  shows "\<exists>e. fst (ensureDir (OG_OUTPUT_DIR ROOT) w) = Inl e
    \<and> script decodable ROOT w =
        (1, w\<lparr>trace := [Mkdir (OG_OUTPUT_DIR ROOT), ConsoleError (Failed e)]\<rparr>)"
  using assms
  by (auto simp: script_def main_def ensureDir_def called_def split: sum.splits)

lemma script_source_missing:
  assumes "fst (ensureDir (OG_OUTPUT_DIR ROOT) w) = Inr ()"
    and "dirs w (OG_SOURCE_DIR ROOT) = None" and "files w (OG_SOURCE_DIR ROOT) = None"
  shows "script decodable ROOT w =
    (0, w\<lparr>dirs := dirs (snd (ensureDir (OG_OUTPUT_DIR ROOT) w)),
          trace := [Mkdir (OG_OUTPUT_DIR ROOT), Access (OG_SOURCE_DIR ROOT),
                    ConsoleLog (SourceDirMissing (OG_SOURCE_DIR ROOT))]\<rparr>)"
  using assms(2,3) dirs_at_source [OF assms(1)]
  by (simp add: script_def main_def ensureDir_world [OF assms(1)] access_def called_def)

lemma script_not_a_directory:
  assumes "fst (ensureDir (OG_OUTPUT_DIR ROOT) w) = Inr ()"
    and "dirs w (OG_SOURCE_DIR ROOT) = None" and "files w (OG_SOURCE_DIR ROOT) \<noteq> None"
  shows "script decodable ROOT w =
    (1, w\<lparr>dirs := dirs (snd (ensureDir (OG_OUTPUT_DIR ROOT) w)),
          trace := [Mkdir (OG_OUTPUT_DIR ROOT), Access (OG_SOURCE_DIR ROOT),
                    Readdir (OG_SOURCE_DIR ROOT),
                    ConsoleError (Failed (NotADirectory (OG_SOURCE_DIR ROOT)))]\<rparr>)"
  using assms(2,3) dirs_at_source [OF assms(1)]
  by (auto simp: script_def main_def ensureDir_world [OF assms(1)] access_def listFiles_def
      called_def)

lemma listFiles_Inr:
  assumes "fst (listFiles dir w) = Inr inputs"
  shows "\<exists>names. dirs w dir = Some names
    \<and> inputs = map (\<lambda>name. dir @ [name]) (filter (\<lambda>name. files w (dir @ [name]) \<noteq> None) names)"
  using assms by (auto simp: listFiles_def split: option.splits)

lemma script_listing:
  assumes made: "fst (ensureDir (OG_OUTPUT_DIR ROOT) w) = Inr ()"
    and list: "fst (listFiles (OG_SOURCE_DIR ROOT) w) = Inr inputs"
  shows "script decodable ROOT w =
    (if inputs = []
     then (0, w\<lparr>dirs := dirs (snd (ensureDir (OG_OUTPUT_DIR ROOT) w)),
                trace := [Mkdir (OG_OUTPUT_DIR ROOT), Access (OG_SOURCE_DIR ROOT),
                          Readdir (OG_SOURCE_DIR ROOT), ConsoleLog NothingToDo]\<rparr>)
     else
       (case buildAll decodable ROOT inputs []
               (w\<lparr>dirs := dirs (snd (ensureDir (OG_OUTPUT_DIR ROOT) w)),
                  trace := [Mkdir (OG_OUTPUT_DIR ROOT), Access (OG_SOURCE_DIR ROOT),
                            Readdir (OG_SOURCE_DIR ROOT)]\<rparr>) of
          (Inl err, w4) \<Rightarrow> (1, called (ConsoleError (Failed err)) w4)
        | (Inr results, w4) \<Rightarrow> (0, called (ConsoleLog (Generated (length results))) w4)))"
proof -
  let ?SRC = "OG_SOURCE_DIR ROOT" and ?OUT = "OG_OUTPUT_DIR ROOT"
  define w1 where "w1 = w\<lparr>dirs := dirs (snd (ensureDir ?OUT w)), trace := [Mkdir ?OUT]\<rparr>"
  define w2 where "w2 = called (Access ?SRC) w1"
  have first: "ensureDir ?OUT (w\<lparr>trace := []\<rparr>) = (Inr (), w1)"
    unfolding w1_def by (rule ensureDir_world [OF made])
  have at_source: "dirs w1 ?SRC = dirs w ?SRC" and same_files: "files w1 = files w"
    by (simp_all add: w1_def dirs_at_source [OF made])
  from listFiles_Inr [OF list] obtain names where names: "dirs w ?SRC = Some names"
    by blast
  have acc: "access ?SRC w1 = (True, w2)"
    by (simp add: access_def w2_def at_source names)
  have "fst (listFiles ?SRC w2) = fst (listFiles ?SRC w)"
    by (simp add: listFiles_def w2_def called_def at_source same_files split: option.splits)
  moreover have "snd (listFiles ?SRC w2) = called (Readdir ?SRC) w2"
    by (simp add: listFiles_def split: option.splits)
  ultimately have lst: "listFiles ?SRC w2 = (Inr inputs, called (Readdir ?SRC) w2)"
    using list by (simp add: prod_eq_iff)
  have w3: "called (Readdir ?SRC) w2 =
      w\<lparr>dirs := dirs (snd (ensureDir ?OUT w)),
        trace := [Mkdir ?OUT, Access ?SRC, Readdir ?SRC]\<rparr>"
    by (simp add: w2_def w1_def called_def)
  have main: "main decodable ROOT (w\<lparr>trace := []\<rparr>) =
      (if length inputs = 0
       then (Inr (), called (ConsoleLog NothingToDo) (called (Readdir ?SRC) w2))
       else (case buildAll decodable ROOT inputs [] (called (Readdir ?SRC) w2) of
               (Inl err, w4) \<Rightarrow> (Inl err, w4)
             | (Inr results, w4) \<Rightarrow>
                 (Inr (), called (ConsoleLog (Generated (length results))) w4)))"
    unfolding main_def first prod.case sum.case acc bool.case lst
    by (rule refl)
  show ?thesis
    unfolding script_def main w3
    by (simp add: called_def split: prod.splits sum.splits)
qed

lemma encodes_same:
  assumes "dirs v = dirs w" and "files v = files w"
  shows "encodes decodable ROOT v g = encodes decodable ROOT w g"
  using assms
  by (auto simp: encodes_def buildOne_def toFile_def Let_def split: option.splits)

lemma inputs_apart:
  assumes "fst (listFiles (OG_SOURCE_DIR ROOT) w) = Inr inputs"
  shows "\<forall>g \<in> set inputs. butlast g \<noteq> OG_OUTPUT_DIR ROOT"
  using listFiles_Inr [OF assms] source_file_not_output [of ROOT] by auto




lemma script_first_failure:
  assumes made: "fst (ensureDir (OG_OUTPUT_DIR ROOT) w) = Inr ()"
    and list: "fst (listFiles (OG_SOURCE_DIR ROOT) w) = Inr (pre @ f # post)"
    and enc: "\<forall>g \<in> set pre. encodes decodable ROOT (snd (ensureDir (OG_OUTPUT_DIR ROOT) w)) g"
    and fail: "\<not> encodes decodable ROOT (snd (ensureDir (OG_OUTPUT_DIR ROOT) w)) f"
  shows "\<exists>e w'. script decodable ROOT w = (1, w')
    \<and> trace w' = [Mkdir (OG_OUTPUT_DIR ROOT), Access (OG_SOURCE_DIR ROOT),
                   Readdir (OG_SOURCE_DIR ROOT)]
                  @ map (\<lambda>g. ToFile g (outFile ROOT g)) (pre @ [f])
                  @ [ConsoleError (Failed e)]
    \<and> (\<forall>p. p \<notin> outFile ROOT ` set pre \<longrightarrow> files w' p = files w p)
    \<and> (\<forall>g \<in> set pre. \<exists>h \<in> set pre. \<exists>c. outFile ROOT h = outFile ROOT g
          \<and> files w h = Some c
          \<and> files w' (outFile ROOT g) = Some (Encoded c ogEncoding))"
proof -
  let ?SRC = "OG_SOURCE_DIR ROOT" and ?OUT = "OG_OUTPUT_DIR ROOT"
  define w3 where "w3 = w\<lparr>dirs := dirs (snd (ensureDir ?OUT w)),
      trace := [Mkdir ?OUT, Access ?SRC, Readdir ?SRC]\<rparr>"
  have files_made: "files (snd (ensureDir ?OUT w)) = files w"
    using ensureDir_Inr [OF made] by auto
  have same: "encodes decodable ROOT w3 g = encodes decodable ROOT (snd (ensureDir ?OUT w)) g"
    for g by (rule encodes_same) (simp_all add: w3_def files_made)
  have enc3: "\<forall>g \<in> set pre. encodes decodable ROOT w3 g"
    and fail3: "\<not> encodes decodable ROOT w3 f"
    using enc fail same by simp_all
  have out3: "dirs w3 ?OUT \<noteq> None"
    using dirs_at_output [OF made] by (simp add: w3_def)
  have apart: "\<forall>g \<in> set (pre @ [f]). butlast g \<noteq> ?OUT"
    using inputs_apart [OF list] by simp
  from buildAll_first_failure [OF enc3 fail3 apart out3, of post "[]"]
  obtain e w4 where w4:
    "buildAll decodable ROOT (pre @ f # post) [] w3 = (Inl e, w4)"
    "trace w4 = trace w3 @ map (\<lambda>g. ToFile g (outFile ROOT g)) (pre @ [f])"
    "\<forall>p. p \<notin> outFile ROOT ` set pre \<longrightarrow> files w4 p = files w3 p"
    "\<forall>g \<in> set pre. \<exists>h \<in> set pre. \<exists>c. outFile ROOT h = outFile ROOT g
          \<and> files w3 h = Some c
          \<and> files w4 (outFile ROOT g) = Some (Encoded c ogEncoding)"
    by blast
  have "script decodable ROOT w = (1, called (ConsoleError (Failed e)) w4)"
    using script_listing [OF made list, of decodable] w4(1) by (simp add: w3_def)
  moreover have "trace (called (ConsoleError (Failed e)) w4)
      = [Mkdir ?OUT, Access ?SRC, Readdir ?SRC]
        @ map (\<lambda>g. ToFile g (outFile ROOT g)) (pre @ [f])
        @ [ConsoleError (Failed e)]"
    using w4(2) by (simp add: called_def w3_def)
  moreover have "files (called (ConsoleError (Failed e)) w4) = files w4"
    by (simp_all add: called_def)
  moreover have "files w3 = files w"
    by (simp add: w3_def)
  ultimately show ?thesis using w4(3,4) by auto
qed



text \<open>What holds of every run in which the output directory could be made.\<close>

lemma script_after_mkdir:
  assumes made: "fst (ensureDir (OG_OUTPUT_DIR ROOT) w) = Inr ()"
  shows "take 2 (trace (snd (script decodable ROOT w)))
      = [Mkdir (OG_OUTPUT_DIR ROOT), Access (OG_SOURCE_DIR ROOT)]"
    and "dirs (snd (ensureDir (OG_OUTPUT_DIR ROOT) w)) q = Some ns
      \<Longrightarrow> \<exists>ns'. dirs (snd (script decodable ROOT w)) q = Some ns' \<and> set ns \<subseteq> set ns'"
proof -
  let ?SRC = "OG_SOURCE_DIR ROOT" and ?OUT = "OG_OUTPUT_DIR ROOT"
  let ?r = "script decodable ROOT w"
  have "take 2 (trace (snd ?r)) = [Mkdir ?OUT, Access ?SRC]
    \<and> (dirs (snd (ensureDir ?OUT w)) q = Some ns
        \<longrightarrow> (\<exists>ns'. dirs (snd ?r) q = Some ns' \<and> set ns \<subseteq> set ns'))"
  proof (cases "dirs w ?SRC")
    case None
    show ?thesis
    proof (cases "files w ?SRC")
      case None
      with \<open>dirs w ?SRC = None\<close> show ?thesis
        by (simp add: script_source_missing [OF made])
    next
      case (Some c)
      with \<open>dirs w ?SRC = None\<close> show ?thesis
        by (simp add: script_not_a_directory [OF made])
    qed
  next
    case (Some names)
    then obtain inputs where list: "fst (listFiles ?SRC w) = Inr inputs"
      by (simp add: listFiles_def)
    show ?thesis
    proof (cases "inputs = []")
      case True
      with script_listing [OF made list, of decodable] show ?thesis by simp
    next
      case False
      define w3 where "w3 = w\<lparr>dirs := dirs (snd (ensureDir ?OUT w)),
          trace := [Mkdir ?OUT, Access ?SRC, Readdir ?SRC]\<rparr>"
      obtain r w4 where b: "buildAll decodable ROOT inputs [] w3 = (r, w4)"
        by (cases "buildAll decodable ROOT inputs [] w3")
      from buildAll_frame [OF b] obtain cs where
        cs: "trace w4 = [Mkdir ?OUT, Access ?SRC, Readdir ?SRC] @ cs"
        by (auto simp: w3_def)
      have grow: "\<exists>ns'. dirs w4 q = Some ns' \<and> set ns \<subseteq> set ns'"
        if "dirs (snd (ensureDir ?OUT w)) q = Some ns"
        using buildAll_grows [OF b, of q ns] that by (simp add: w3_def)
      from script_listing [OF made list, of decodable] False b
      have "snd ?r = (case r of Inl err \<Rightarrow> called (ConsoleError (Failed err)) w4
                       | Inr results \<Rightarrow> called (ConsoleLog (Generated (length results))) w4)"
        by (simp add: w3_def split: sum.splits)
      with cs grow show ?thesis
        by (simp add: called_def split: sum.splits)
    qed
  qed
  then show "take 2 (trace (snd ?r)) = [Mkdir ?OUT, Access ?SRC]"
    and "dirs (snd (ensureDir ?OUT w)) q = Some ns
      \<Longrightarrow> \<exists>ns'. dirs (snd ?r) q = Some ns' \<and> set ns \<subseteq> set ns'"
    by simp_all
qed

lemmas pipeline_defs = script_def main_def ensureDir_def access_def listFiles_def called_def
  checkout_def OG_OUTPUT_DIR_def OG_SOURCE_DIR_def mkdir1_def addEntry_def buildOne_def
  toFile_def outNameFromInput_def parse_name_def lastDot_def Let_def WIDTH_def HEIGHT_def
  encodes_def outFile_def ogEncoding_def publicIsAFile_def sourceIsAFile_def







text \<open>
  Two states of the disk in which there is no source directory and the run exits with
  1, where claim C9 says 0. In the first a regular file is at \<open>public\<close>, so the \<open>mkdir\<close>
  of the output directory rejects before the source directory is looked at. In the
  second a regular file is at \<open>src/og\<close>: \<open>access\<close> resolves for it, and \<open>readdir\<close>
  rejects.
\<close>

theorem no_source_directory_exit_1:
  "dirs publicIsAFile (OG_SOURCE_DIR [''repo'']) = None
   \<and> files publicIsAFile (OG_SOURCE_DIR [''repo'']) = None
   \<and> fst (script (\<lambda>c. True) [''repo''] publicIsAFile) = 1
   \<and> dirs sourceIsAFile (OG_SOURCE_DIR [''repo'']) = None
   \<and> fst (script (\<lambda>c. True) [''repo''] sourceIsAFile) = 1"
  by (simp add: pipeline_defs)

text \<open>
  Claim C9, amended. In every case the output directory can be made: no regular file
  is at its path or at the path of one of its ancestors (\<open>ensureDir_Inr_iff\<close>). When
  nothing is at the path
  of the source directory, the run logs that the directory is missing, calls \<open>toFile\<close>
  for no file, leaves every file as it was and exits with 0. When the source
  directory holds no regular file, the run logs that there is nothing to do, and
  again writes no file and exits with 0. When \<open>f\<close> is the first input whose \<open>buildOne\<close>
  throws, the run exits with 1; the \<open>toFile\<close> calls it has made are those for the
  inputs before \<open>f\<close> and the one for \<open>f\<close>, each once, so no later input is processed
  and none is tried again; and the images written for the inputs before \<open>f\<close> are still
  there.
\<close>

theorem og_error_behaviour:
  "(fst (ensureDir (OG_OUTPUT_DIR ROOT) w) = Inr ()
      \<and> dirs w (OG_SOURCE_DIR ROOT) = None \<and> files w (OG_SOURCE_DIR ROOT) = None \<longrightarrow>
      script decodable ROOT w =
        (0, w\<lparr>dirs := dirs (snd (ensureDir (OG_OUTPUT_DIR ROOT) w)),
              trace := [Mkdir (OG_OUTPUT_DIR ROOT), Access (OG_SOURCE_DIR ROOT),
                        ConsoleLog (SourceDirMissing (OG_SOURCE_DIR ROOT))]\<rparr>))
   \<and> (fst (ensureDir (OG_OUTPUT_DIR ROOT) w) = Inr ()
      \<and> fst (listFiles (OG_SOURCE_DIR ROOT) w) = Inr [] \<longrightarrow>
      script decodable ROOT w =
        (0, w\<lparr>dirs := dirs (snd (ensureDir (OG_OUTPUT_DIR ROOT) w)),
              trace := [Mkdir (OG_OUTPUT_DIR ROOT), Access (OG_SOURCE_DIR ROOT),
                        Readdir (OG_SOURCE_DIR ROOT), ConsoleLog NothingToDo]\<rparr>))
   \<and> (fst (ensureDir (OG_OUTPUT_DIR ROOT) w) = Inr ()
      \<and> fst (listFiles (OG_SOURCE_DIR ROOT) w) = Inr (pre @ f # post)
      \<and> (\<forall>g \<in> set pre. encodes decodable ROOT (snd (ensureDir (OG_OUTPUT_DIR ROOT) w)) g)
      \<and> \<not> encodes decodable ROOT (snd (ensureDir (OG_OUTPUT_DIR ROOT) w)) f \<longrightarrow>
      (\<exists>e w'. script decodable ROOT w = (1, w')
         \<and> trace w' = [Mkdir (OG_OUTPUT_DIR ROOT), Access (OG_SOURCE_DIR ROOT),
                        Readdir (OG_SOURCE_DIR ROOT)]
                       @ map (\<lambda>g. ToFile g (outFile ROOT g)) (pre @ [f])
                       @ [ConsoleError (Failed e)]
         \<and> (\<forall>g \<in> set pre. \<exists>h \<in> set pre. \<exists>c. outFile ROOT h = outFile ROOT g
               \<and> files w h = Some c
               \<and> files w' (outFile ROOT g) = Some (Encoded c ogEncoding))
         \<and> (\<forall>p. p \<notin> outFile ROOT ` set pre \<longrightarrow> files w' p = files w p)))"
proof (intro conjI impI)
  assume "fst (ensureDir (OG_OUTPUT_DIR ROOT) w) = Inr ()
      \<and> dirs w (OG_SOURCE_DIR ROOT) = None \<and> files w (OG_SOURCE_DIR ROOT) = None"
  then show "script decodable ROOT w =
        (0, w\<lparr>dirs := dirs (snd (ensureDir (OG_OUTPUT_DIR ROOT) w)),
              trace := [Mkdir (OG_OUTPUT_DIR ROOT), Access (OG_SOURCE_DIR ROOT),
                        ConsoleLog (SourceDirMissing (OG_SOURCE_DIR ROOT))]\<rparr>)"
    by (simp add: script_source_missing)
next
  assume a: "fst (ensureDir (OG_OUTPUT_DIR ROOT) w) = Inr ()
      \<and> fst (listFiles (OG_SOURCE_DIR ROOT) w) = Inr []"
  from script_listing [OF a [THEN conjunct1] a [THEN conjunct2], of decodable]
  show "script decodable ROOT w =
        (0, w\<lparr>dirs := dirs (snd (ensureDir (OG_OUTPUT_DIR ROOT) w)),
              trace := [Mkdir (OG_OUTPUT_DIR ROOT), Access (OG_SOURCE_DIR ROOT),
                        Readdir (OG_SOURCE_DIR ROOT), ConsoleLog NothingToDo]\<rparr>)"
    by simp
next
  assume a: "fst (ensureDir (OG_OUTPUT_DIR ROOT) w) = Inr ()
      \<and> fst (listFiles (OG_SOURCE_DIR ROOT) w) = Inr (pre @ f # post)
      \<and> (\<forall>g \<in> set pre. encodes decodable ROOT (snd (ensureDir (OG_OUTPUT_DIR ROOT) w)) g)
      \<and> \<not> encodes decodable ROOT (snd (ensureDir (OG_OUTPUT_DIR ROOT) w)) f"
  from script_first_failure [of ROOT w pre f post decodable] a
  show "\<exists>e w'. script decodable ROOT w = (1, w')
         \<and> trace w' = [Mkdir (OG_OUTPUT_DIR ROOT), Access (OG_SOURCE_DIR ROOT),
                        Readdir (OG_SOURCE_DIR ROOT)]
                       @ map (\<lambda>g. ToFile g (outFile ROOT g)) (pre @ [f])
                       @ [ConsoleError (Failed e)]
         \<and> (\<forall>g \<in> set pre. \<exists>h \<in> set pre. \<exists>c. outFile ROOT h = outFile ROOT g
               \<and> files w h = Some c
               \<and> files w' (outFile ROOT g) = Some (Encoded c ogEncoding))
         \<and> (\<forall>p. p \<notin> outFile ROOT ` set pre \<longrightarrow> files w' p = files w p)"
    by blast
qed

theorem og_error_behaviour_witness:
  "fst (ensureDir (OG_OUTPUT_DIR [''elsewhere'']) (checkout [])) = Inr ()
   \<and> dirs (checkout []) (OG_SOURCE_DIR [''elsewhere'']) = None
   \<and> files (checkout []) (OG_SOURCE_DIR [''elsewhere'']) = None
   \<and> fst (script (\<lambda>c. True) [''elsewhere''] (checkout [])) = 0
   \<and> trace (snd (script (\<lambda>c. True) [''elsewhere''] (checkout [])))
       = [Mkdir [''elsewhere'', ''public'', ''images'', ''og''],
          Access [''elsewhere'', ''src'', ''og''],
          ConsoleLog (SourceDirMissing [''elsewhere'', ''src'', ''og''])]
   \<and> fst (ensureDir (OG_OUTPUT_DIR [''repo'']) (checkout [])) = Inr ()
   \<and> fst (listFiles (OG_SOURCE_DIR [''repo'']) (checkout [])) = Inr []
   \<and> fst (script (\<lambda>c. True) [''repo''] (checkout [])) = 0
   \<and> trace (snd (script (\<lambda>c. True) [''repo''] (checkout [])))
       = [Mkdir [''repo'', ''public'', ''images'', ''og''],
          Access [''repo'', ''src'', ''og''], Readdir [''repo'', ''src'', ''og''],
          ConsoleLog NothingToDo]
   \<and> fst (ensureDir (OG_OUTPUT_DIR [''repo''])
         (checkout [''a.png'', ''b.txt'', ''c.png''])) = Inr ()
   \<and> fst (listFiles (OG_SOURCE_DIR [''repo'']) (checkout [''a.png'', ''b.txt'', ''c.png'']))
       = Inr ([[''repo'', ''src'', ''og'', ''a.png'']]
              @ [''repo'', ''src'', ''og'', ''b.txt''] # [[''repo'', ''src'', ''og'', ''c.png'']])
   \<and> encodes (\<lambda>c. c \<noteq> Original ''b.txt'') [''repo'']
         (snd (ensureDir (OG_OUTPUT_DIR [''repo''])
            (checkout [''a.png'', ''b.txt'', ''c.png''])))
         [''repo'', ''src'', ''og'', ''a.png'']
   \<and> \<not> encodes (\<lambda>c. c \<noteq> Original ''b.txt'') [''repo'']
         (snd (ensureDir (OG_OUTPUT_DIR [''repo''])
            (checkout [''a.png'', ''b.txt'', ''c.png''])))
         [''repo'', ''src'', ''og'', ''b.txt'']
   \<and> fst (script (\<lambda>c. c \<noteq> Original ''b.txt'') [''repo'']
         (checkout [''a.png'', ''b.txt'', ''c.png''])) = 1
   \<and> written (trace (snd (script (\<lambda>c. c \<noteq> Original ''b.txt'') [''repo'']
         (checkout [''a.png'', ''b.txt'', ''c.png'']))))
       = [([''repo'', ''src'', ''og'', ''a.png''],
           [''repo'', ''public'', ''images'', ''og'', ''a.webp'']),
          ([''repo'', ''src'', ''og'', ''b.txt''],
           [''repo'', ''public'', ''images'', ''og'', ''b.webp''])]
   \<and> files (snd (script (\<lambda>c. c \<noteq> Original ''b.txt'') [''repo'']
         (checkout [''a.png'', ''b.txt'', ''c.png''])))
         [''repo'', ''public'', ''images'', ''og'', ''a.webp'']
       = Some (Encoded (Original ''a.png'') ogEncoding)"
proof -
  let ?three = "checkout [''a.png'', ''b.txt'', ''c.png'']"
  let ?dec = "\<lambda>c. c \<noteq> Original ''b.txt''"
  let ?a = "[''repo'', ''src'', ''og'', ''a.png'']"
  let ?b = "[''repo'', ''src'', ''og'', ''b.txt'']"
  let ?c = "[''repo'', ''src'', ''og'', ''c.png'']"
  have made1: "fst (ensureDir (OG_OUTPUT_DIR [''elsewhere'']) (checkout [])) = Inr ()"
    by (simp add: ensureDir_def OG_OUTPUT_DIR_def checkout_def)
  have made2: "fst (ensureDir (OG_OUTPUT_DIR [''repo'']) (checkout [])) = Inr ()"
    by (simp add: ensureDir_def OG_OUTPUT_DIR_def checkout_def)
  have made3: "fst (ensureDir (OG_OUTPUT_DIR [''repo'']) ?three) = Inr ()"
    by (simp add: ensureDir_def OG_OUTPUT_DIR_def checkout_def)
  have missing: "dirs (checkout []) (OG_SOURCE_DIR [''elsewhere'']) = None"
    "files (checkout []) (OG_SOURCE_DIR [''elsewhere'']) = None"
    by (simp_all add: checkout_def OG_SOURCE_DIR_def)
  have empty: "fst (listFiles (OG_SOURCE_DIR [''repo'']) (checkout [])) = Inr []"
    by (simp add: listFiles_def checkout_def OG_SOURCE_DIR_def)
  have list: "fst (listFiles (OG_SOURCE_DIR [''repo'']) ?three) = Inr ([?a] @ ?b # [?c])"
    by (simp add: listFiles_def checkout_def OG_SOURCE_DIR_def)
  have a: "encodes ?dec [''repo''] (snd (ensureDir (OG_OUTPUT_DIR [''repo'']) ?three)) ?a"
    by (simp add: pipeline_defs)
  have b: "\<not> encodes ?dec [''repo''] (snd (ensureDir (OG_OUTPUT_DIR [''repo'']) ?three)) ?b"
    by (simp add: pipeline_defs)
  have names: "outFile [''repo''] ?a = [''repo'', ''public'', ''images'', ''og'', ''a.webp'']"
    "outFile [''repo''] ?b = [''repo'', ''public'', ''images'', ''og'', ''b.webp'']"
    by (simp_all add: outFile_def OG_OUTPUT_DIR_def outNameFromInput_def parse_name_def
        lastDot_def)
  have content: "files ?three ?a = Some (Original ''a.png'')"
    by (simp add: checkout_def)
  note cases3 = og_error_behaviour
  have one: "script (\<lambda>c. True) [''elsewhere''] (checkout []) =
      (0, (checkout [])\<lparr>dirs := dirs (snd (ensureDir (OG_OUTPUT_DIR [''elsewhere''])
                (checkout []))),
            trace := [Mkdir (OG_OUTPUT_DIR [''elsewhere'']), Access (OG_SOURCE_DIR [''elsewhere'']),
                      ConsoleLog (SourceDirMissing (OG_SOURCE_DIR [''elsewhere'']))]\<rparr>)"
    using cases3 [where w = "checkout []" and ROOT = "[''elsewhere'']"
        and decodable = "\<lambda>c. True", THEN conjunct1] made1 missing by blast
  have two: "script (\<lambda>c. True) [''repo''] (checkout []) =
      (0, (checkout [])\<lparr>dirs := dirs (snd (ensureDir (OG_OUTPUT_DIR [''repo'']) (checkout []))),
            trace := [Mkdir (OG_OUTPUT_DIR [''repo'']), Access (OG_SOURCE_DIR [''repo'']),
                      Readdir (OG_SOURCE_DIR [''repo'']), ConsoleLog NothingToDo]\<rparr>)"
    using cases3 [where w = "checkout []" and ROOT = "[''repo'']"
        and decodable = "\<lambda>c. True", THEN conjunct2, THEN conjunct1] made2 empty by blast
  have pre: "\<forall>g \<in> set [?a].
      encodes ?dec [''repo''] (snd (ensureDir (OG_OUTPUT_DIR [''repo'']) ?three)) g"
    using a by simp
  from cases3 [where w = ?three and ROOT = "[''repo'']" and decodable = ?dec
      and pre = "[?a]" and f = ?b and post = "[?c]", THEN conjunct2, THEN conjunct2, THEN mp,
      OF conjI [OF made3 conjI [OF list conjI [OF pre b]]]]
  obtain e w' where three: "script ?dec [''repo''] ?three = (1, w')"
    "trace w' = [Mkdir (OG_OUTPUT_DIR [''repo'']), Access (OG_SOURCE_DIR [''repo'']),
                  Readdir (OG_SOURCE_DIR [''repo''])]
                 @ map (\<lambda>g. ToFile g (outFile [''repo''] g)) ([?a] @ [?b])
                 @ [ConsoleError (Failed e)]"
    "\<forall>g \<in> set [?a]. \<exists>h \<in> set [?a]. \<exists>c. outFile [''repo''] h = outFile [''repo''] g
        \<and> files ?three h = Some c
        \<and> files w' (outFile [''repo''] g) = Some (Encoded c ogEncoding)"
    by blast
  from three(3) content names
  have kept: "files w' [''repo'', ''public'', ''images'', ''og'', ''a.webp'']
      = Some (Encoded (Original ''a.png'') ogEncoding)"
    by simp
  have wr: "written (trace w') = [(?a, outFile [''repo''] ?a), (?b, outFile [''repo''] ?b)]"
    unfolding three(2) by simp
  have r1: "fst (script (\<lambda>c. True) [''elsewhere''] (checkout [])) = 0"
    "trace (snd (script (\<lambda>c. True) [''elsewhere''] (checkout [])))
       = [Mkdir [''elsewhere'', ''public'', ''images'', ''og''],
          Access [''elsewhere'', ''src'', ''og''],
          ConsoleLog (SourceDirMissing [''elsewhere'', ''src'', ''og''])]"
    unfolding one by (simp_all add: OG_OUTPUT_DIR_def OG_SOURCE_DIR_def)
  have r2: "fst (script (\<lambda>c. True) [''repo''] (checkout [])) = 0"
    "trace (snd (script (\<lambda>c. True) [''repo''] (checkout [])))
       = [Mkdir [''repo'', ''public'', ''images'', ''og''],
          Access [''repo'', ''src'', ''og''], Readdir [''repo'', ''src'', ''og''],
          ConsoleLog NothingToDo]"
    unfolding two by (simp_all add: OG_OUTPUT_DIR_def OG_SOURCE_DIR_def)
  have r3: "fst (script ?dec [''repo''] ?three) = 1"
    "written (trace (snd (script ?dec [''repo''] ?three)))
       = [(?a, [''repo'', ''public'', ''images'', ''og'', ''a.webp'']),
          (?b, [''repo'', ''public'', ''images'', ''og'', ''b.webp''])]"
    "files (snd (script ?dec [''repo''] ?three))
         [''repo'', ''public'', ''images'', ''og'', ''a.webp'']
       = Some (Encoded (Original ''a.png'') ogEncoding)"
    unfolding three(1) using wr kept by (simp_all add: names)
  from made1 missing r1 made2 empty r2 made3 list a b r3 show ?thesis
    by (intro conjI)
qed

text \<open>
  With a regular file at \<open>public\<close> the run calls \<open>mkdir\<close>, which rejects, and exits with
  1: \<open>access\<close> is never called and no output directory is on the disk afterwards. So
  claim C10 does not hold of every run.
\<close>

theorem mkdir_rejected_no_access:
  "fst (script (\<lambda>c. True) [''repo''] publicIsAFile) = 1
   \<and> trace (snd (script (\<lambda>c. True) [''repo''] publicIsAFile))
       = [Mkdir [''repo'', ''public'', ''images'', ''og''],
          ConsoleError (Failed (NotADirectory [''repo'', ''public'']))]
   \<and> dirs (snd (script (\<lambda>c. True) [''repo''] publicIsAFile))
        [''repo'', ''public'', ''images'', ''og''] = None"
  by (simp add: pipeline_defs)

text \<open>
  Claim C10, amended. The first call of every run is the \<open>mkdir\<close> of the output
  directory. When it rejects, the run exits with 1 without a call of \<open>access\<close>, and
  the disk is as it was. When it does not reject, the second call is the \<open>access\<close> of
  the source directory; the output directory and every ancestor of it exist when
  that call is made and when the run ends, and each of them that was not there
  before the run is entered in its parent. Then, when nothing is at the path of the
  source directory, the run exits with 0 and writes no file, and an output directory
  that was not there before the run is there after it, empty.
\<close>

theorem output_dir_made_first:
  "take 1 (trace (snd (script decodable ROOT w))) = [Mkdir (OG_OUTPUT_DIR ROOT)]
   \<and> (fst (ensureDir (OG_OUTPUT_DIR ROOT) w) \<noteq> Inr () \<longrightarrow>
        fst (script decodable ROOT w) = 1
        \<and> Access (OG_SOURCE_DIR ROOT) \<notin> set (trace (snd (script decodable ROOT w)))
        \<and> dirs (snd (script decodable ROOT w)) = dirs w
        \<and> files (snd (script decodable ROOT w)) = files w)
   \<and> (fst (ensureDir (OG_OUTPUT_DIR ROOT) w) = Inr () \<longrightarrow>
        take 2 (trace (snd (script decodable ROOT w)))
          = [Mkdir (OG_OUTPUT_DIR ROOT), Access (OG_SOURCE_DIR ROOT)]
        \<and> (\<forall>p. prefix p (OG_OUTPUT_DIR ROOT) \<longrightarrow>
              dirs (snd (ensureDir (OG_OUTPUT_DIR ROOT) w)) p \<noteq> None
              \<and> dirs (snd (script decodable ROOT w)) p \<noteq> None
              \<and> (p \<noteq> [] \<and> dirs w p = None \<longrightarrow>
                   (\<exists>names. dirs (snd (script decodable ROOT w)) (butlast p) = Some names
                      \<and> last p \<in> set names)))
        \<and> (dirs w (OG_SOURCE_DIR ROOT) = None \<and> files w (OG_SOURCE_DIR ROOT) = None \<longrightarrow>
             fst (script decodable ROOT w) = 0
             \<and> written (trace (snd (script decodable ROOT w))) = []
             \<and> files (snd (script decodable ROOT w)) = files w
             \<and> (dirs w (OG_OUTPUT_DIR ROOT) = None \<longrightarrow>
                  dirs (snd (script decodable ROOT w)) (OG_OUTPUT_DIR ROOT) = Some [])))"
proof -
  let ?SRC = "OG_SOURCE_DIR ROOT" and ?OUT = "OG_OUTPUT_DIR ROOT"
  let ?r = "script decodable ROOT w"
  have rejected: "take 1 (trace (snd ?r)) = [Mkdir ?OUT] \<and> fst ?r = 1
      \<and> Access ?SRC \<notin> set (trace (snd ?r)) \<and> dirs (snd ?r) = dirs w
      \<and> files (snd ?r) = files w"
    if "fst (ensureDir ?OUT w) \<noteq> Inr ()"
    using script_mkdir_rejects [OF that, of decodable] by auto
  have start: "take 2 (trace (snd ?r)) = [Mkdir ?OUT, Access ?SRC]"
    if "fst (ensureDir ?OUT w) = Inr ()"
    using script_after_mkdir(1) [OF that] .
  have ancestors: "dirs (snd (ensureDir ?OUT w)) p \<noteq> None \<and> dirs (snd ?r) p \<noteq> None
      \<and> (p \<noteq> [] \<and> dirs w p = None \<longrightarrow>
            (\<exists>names. dirs (snd ?r) (butlast p) = Some names \<and> last p \<in> set names))"
    if made: "fst (ensureDir ?OUT w) = Inr ()" and p: "prefix p ?OUT" for p
  proof (intro conjI impI)
    show first: "dirs (snd (ensureDir ?OUT w)) p \<noteq> None"
      using dirs_at_ancestors(1) [OF made p] .
    then obtain ns where "dirs (snd (ensureDir ?OUT w)) p = Some ns" by auto
    from script_after_mkdir(2) [OF made this, of decodable]
    show "dirs (snd ?r) p \<noteq> None" by auto
    assume "p \<noteq> [] \<and> dirs w p = None"
    then have "p \<noteq> []" "dirs w p = None" by simp_all
    from dirs_at_ancestors(2) [OF made p this] obtain ns1 where
      ns1: "dirs (snd (ensureDir ?OUT w)) (butlast p) = Some ns1" "last p \<in> set ns1"
      by blast
    from script_after_mkdir(2) [OF made ns1(1), of decodable] ns1(2)
    show "\<exists>names. dirs (snd ?r) (butlast p) = Some names \<and> last p \<in> set names"
      by auto
  qed
  have missing: "fst ?r = 0 \<and> written (trace (snd ?r)) = [] \<and> files (snd ?r) = files w
      \<and> (dirs w ?OUT = None \<longrightarrow> dirs (snd ?r) ?OUT = Some [])"
    if made: "fst (ensureDir ?OUT w) = Inr ()"
      and "dirs w ?SRC = None \<and> files w ?SRC = None"
    using that dirs_at_new_output [OF made]
    by (simp add: script_source_missing [OF made])
  have first: "take 1 (trace (snd ?r)) = [Mkdir ?OUT]"
  proof (cases "fst (ensureDir ?OUT w) = Inr ()")
    case True
    from start [OF True] have "take 1 (take 2 (trace (snd ?r))) = [Mkdir ?OUT]" by simp
    then show ?thesis by (simp add: min_def)
  next
    case False
    from rejected [OF False] show ?thesis by simp
  qed
  from first rejected start ancestors missing show ?thesis by blast
qed

theorem output_dir_made_first_witness:
  "fst (ensureDir (OG_OUTPUT_DIR [''elsewhere'']) (checkout [])) = Inr ()
   \<and> dirs (checkout []) (OG_SOURCE_DIR [''elsewhere'']) = None
   \<and> files (checkout []) (OG_SOURCE_DIR [''elsewhere'']) = None
   \<and> dirs (checkout []) (OG_OUTPUT_DIR [''elsewhere'']) = None
   \<and> prefix [''elsewhere'', ''public''] (OG_OUTPUT_DIR [''elsewhere''])
   \<and> dirs (checkout []) [''elsewhere'', ''public''] = None
   \<and> take 2 (trace (snd (script (\<lambda>c. True) [''elsewhere''] (checkout []))))
       = [Mkdir [''elsewhere'', ''public'', ''images'', ''og''],
          Access [''elsewhere'', ''src'', ''og'']]
   \<and> (\<exists>names. dirs (snd (script (\<lambda>c. True) [''elsewhere''] (checkout [])))
          [''elsewhere''] = Some names \<and> ''public'' \<in> set names)
   \<and> fst (script (\<lambda>c. True) [''elsewhere''] (checkout [])) = 0
   \<and> written (trace (snd (script (\<lambda>c. True) [''elsewhere''] (checkout [])))) = []
   \<and> files (snd (script (\<lambda>c. True) [''elsewhere''] (checkout []))) = files (checkout [])
   \<and> dirs (snd (script (\<lambda>c. True) [''elsewhere''] (checkout [])))
        [''elsewhere'', ''public'', ''images'', ''og''] = Some []
   \<and> fst (ensureDir (OG_OUTPUT_DIR [''repo'']) publicIsAFile) \<noteq> Inr ()
   \<and> fst (script (\<lambda>c. True) [''repo''] publicIsAFile) = 1
   \<and> Access (OG_SOURCE_DIR [''repo''])
        \<notin> set (trace (snd (script (\<lambda>c. True) [''repo''] publicIsAFile)))"
proof -
  let ?r = "script (\<lambda>c. True) [''elsewhere''] (checkout [])"
  have made: "fst (ensureDir (OG_OUTPUT_DIR [''elsewhere'']) (checkout [])) = Inr ()"
    by (simp add: ensureDir_def OG_OUTPUT_DIR_def checkout_def)
  have missing: "dirs (checkout []) (OG_SOURCE_DIR [''elsewhere'']) = None
      \<and> files (checkout []) (OG_SOURCE_DIR [''elsewhere'']) = None"
    by (simp add: checkout_def OG_SOURCE_DIR_def)
  have absent: "dirs (checkout []) (OG_OUTPUT_DIR [''elsewhere'']) = None"
    by (simp add: checkout_def OG_OUTPUT_DIR_def)
  have above: "prefix [''elsewhere'', ''public''] (OG_OUTPUT_DIR [''elsewhere''])"
    by (simp add: OG_OUTPUT_DIR_def)
  have new: "[''elsewhere'', ''public''] \<noteq> [] \<and> dirs (checkout []) [''elsewhere'', ''public''] = None"
    by (simp add: checkout_def)
  have rejected: "fst (ensureDir (OG_OUTPUT_DIR [''repo'']) publicIsAFile) \<noteq> Inr ()"
    by (simp add: ensureDir_def OG_OUTPUT_DIR_def publicIsAFile_def)
  note here = output_dir_made_first [where decodable = "\<lambda>c. True" and ROOT = "[''elsewhere'']"
      and w = "checkout []", THEN conjunct2, THEN conjunct2, THEN mp, OF made]
  note there = output_dir_made_first [where decodable = "\<lambda>c. True" and ROOT = "[''repo'']"
      and w = publicIsAFile, THEN conjunct2, THEN conjunct1, THEN mp, OF rejected]
  from here [THEN conjunct1]
  have start: "take 2 (trace (snd ?r))
      = [Mkdir [''elsewhere'', ''public'', ''images'', ''og''],
         Access [''elsewhere'', ''src'', ''og'']]"
    by (simp add: OG_OUTPUT_DIR_def OG_SOURCE_DIR_def)
  from here [THEN conjunct2, THEN conjunct1, THEN spec, THEN mp, OF above,
      THEN conjunct2, THEN conjunct2, THEN mp, OF new]
  have entered: "\<exists>names. dirs (snd ?r) [''elsewhere''] = Some names \<and> ''public'' \<in> set names"
    by simp
  from here [THEN conjunct2, THEN conjunct2, THEN mp, OF missing]
  have idle: "fst ?r = 0" "written (trace (snd ?r)) = []"
    "files (snd ?r) = files (checkout [])"
    "dirs (checkout []) (OG_OUTPUT_DIR [''elsewhere'']) = None
      \<longrightarrow> dirs (snd ?r) (OG_OUTPUT_DIR [''elsewhere'']) = Some []"
    by blast+
  from idle(4) absent
  have empty: "dirs (snd ?r) [''elsewhere'', ''public'', ''images'', ''og''] = Some []"
    by (simp add: OG_OUTPUT_DIR_def)
  from there have stop: "fst (script (\<lambda>c. True) [''repo''] publicIsAFile) = 1"
    "Access (OG_SOURCE_DIR [''repo''])
       \<notin> set (trace (snd (script (\<lambda>c. True) [''repo''] publicIsAFile)))"
    by blast+
  from new have new2: "dirs (checkout []) [''elsewhere'', ''public''] = None" by simp
  from made missing absent above new2 start entered idle(1,2,3) empty rejected stop
  show ?thesis by (intro conjI) simp_all
qed

end
